theory Spec2Isabelle
  imports Main
begin

section \<open>JavaScript values\<close>

text \<open>
  The values the sanitizer and the state manager handle. An object is the list of its own
  enumerable entries in the order \<open>Object.entries\<close> lists them; a JavaScript object never
  has the same key twice. Numbers are only ever inspected with \<open>typeof\<close>, so their
  payload is an integer here. Property reads \<open>object[key]\<close> are reads of own properties:
  the objects are plain data records (the settings tree and what the storage backend returns).
\<close>

datatype jsval =
    JUndefined
  | JNull
  | JBool bool
  | JNum int
  | JStr string
  | JBigInt int
  | JSymbol string
  | JFunction string
  | JArr "jsval list"
  | JObj "(string \<times> jsval) list"

type_synonym jsobject = "(string \<times> jsval) list"

datatype jstype =
  TUndefined | TObject | TBoolean | TNumber | TString | TBigint | TSymbol | TFunction

fun typeof :: "jsval \<Rightarrow> jstype" where
  "typeof JUndefined = TUndefined"
| "typeof JNull = TObject"
| "typeof (JBool b) = TBoolean"
| "typeof (JNum n) = TNumber"
| "typeof (JStr s) = TString"
| "typeof (JBigInt n) = TBigint"
| "typeof (JSymbol s) = TSymbol"
| "typeof (JFunction f) = TFunction"
| "typeof (JArr xs) = TObject"
| "typeof (JObj kvs) = TObject"

fun isArray :: "jsval \<Rightarrow> bool" where
  "isArray (JArr xs) = True"
| "isArray v = False"

text \<open>The test \<open>typeof v === 'object' && v !== null && !Array.isArray(v)\<close>.\<close>

definition isPlainObject :: "jsval \<Rightarrow> bool" where
  "isPlainObject v \<longleftrightarrow> typeof v = TObject \<and> v \<noteq> JNull \<and> \<not> isArray v"

text \<open>The primitive values of the language: everything that is not an object, an array or a function.\<close>

fun isPrimitive :: "jsval \<Rightarrow> bool" where
  "isPrimitive (JArr xs) = False"
| "isPrimitive (JObj kvs) = False"
| "isPrimitive (JFunction f) = False"
| "isPrimitive v = True"

text \<open>\<open>object[key]\<close>: the value stored under the key, \<open>undefined\<close> when there is none.\<close>

definition get_prop :: "jsobject \<Rightarrow> string \<Rightarrow> jsval" where
  "get_prop object key = (case map_of object key of None \<Rightarrow> JUndefined | Some v \<Rightarrow> v)"

section \<open>The template sanitizer\<close>

text \<open>
  \<open>cleanObject\<close> walks \<open>Object.entries(template)\<close> and assigns one entry of \<open>result\<close> per
  template entry, in that order; \<open>cleanValue\<close> is the body of that loop (the value assigned
  for one key), \<open>cleanArray\<close> the helper of the same name, and \<open>cleanItems\<close> its
  \<open>userArr.map(...)\<close> over the items of the user array. Where the source returns the
  template value or the user array by reference, the model returns the value. A call without
  an \<open>object\<close> passes the empty object, the default of the parameter. The three-part
  object test of the source is the pattern \<open>JObj\<close> here (see \<open>isPlainObject_iff\<close>).
\<close>

function cleanObject :: "jsobject \<Rightarrow> jsobject \<Rightarrow> jsobject"
  and cleanValue :: "jsval \<Rightarrow> jsval \<Rightarrow> jsval"
  and cleanArray :: "jsval list \<Rightarrow> jsval list \<Rightarrow> jsval list"
  and cleanItems :: "jsval list \<Rightarrow> jsobject \<Rightarrow> jsval list"
where
  "cleanObject object [] = []"
| "cleanObject object ((key, def) # rest) =
     (key, cleanValue (get_prop object key) def) # cleanObject object rest"
| "cleanValue val (JObj tdef) =
     (case val of JObj uval \<Rightarrow> JObj (cleanObject uval tdef) | _ \<Rightarrow> JObj tdef)"
| "cleanValue val (JArr tarr) =
     (case val of
        JArr (u # us) \<Rightarrow> JArr (cleanArray (u # us) tarr)
      | _ \<Rightarrow> JArr tarr)"
| "cleanValue val JUndefined = (if typeof val = typeof JUndefined then val else JUndefined)"
| "cleanValue val JNull = (if typeof val = typeof JNull then val else JNull)"
| "cleanValue val (JBool b) = (if typeof val = typeof (JBool b) then val else JBool b)"
| "cleanValue val (JNum n) = (if typeof val = typeof (JNum n) then val else JNum n)"
| "cleanValue val (JStr s) = (if typeof val = typeof (JStr s) then val else JStr s)"
| "cleanValue val (JBigInt n) = (if typeof val = typeof (JBigInt n) then val else JBigInt n)"
| "cleanValue val (JSymbol s) = (if typeof val = typeof (JSymbol s) then val else JSymbol s)"
| "cleanValue val (JFunction f) = (if typeof val = typeof (JFunction f) then val else JFunction f)"
| "cleanArray userArr [] = []"
| "cleanArray userArr (templateItem # extra) =
     (case templateItem of
        JObj titem \<Rightarrow> cleanItems userArr titem
      | _ \<Rightarrow> if list_all (\<lambda>item. typeof item = typeof templateItem) userArr
             then userArr else templateItem # extra)"
| "cleanItems [] titem = []"
| "cleanItems (item # items) titem =
     (case item of JObj uitem \<Rightarrow> JObj (cleanObject uitem titem) | _ \<Rightarrow> JObj titem)
     # cleanItems items titem"
  by pat_completeness auto

text \<open>
  Every recursive call moves to a strictly smaller part of the template, except the steps
  from a value to the object or array it consists of and along the items of the user array.
\<close>

termination cleanObject
  apply (relation "inv_image (less_than <*lex*> less_than) (\<lambda>x. case x of
     Inl (Inl (object, template)) \<Rightarrow> (size (JObj template), 0)
   | Inl (Inr (val, def)) \<Rightarrow> (size def, 1)
   | Inr (Inl (userArr, templateArr)) \<Rightarrow> (size (JArr templateArr), 0)
   | Inr (Inr (items, titem)) \<Rightarrow> (size (JObj titem), Suc (length items)))")
  apply (rule wf_inv_image, rule wf_lex_prod, rule wf_less_than, rule wf_less_than)
  apply simp_all
  done

text \<open>
  A well-formed template (the data model of the specification): a nested plain object, the
  keys of every object distinct, whose arrays hold no element or exactly one exemplar.
  Arrays nested directly in an array are never inspected by the sanitizer.
\<close>

function wf_template :: "jsobject \<Rightarrow> bool"
  and wf_exemplar :: "jsval \<Rightarrow> bool"
where
  "wf_template [] = True"
| "wf_template ((key, def) # rest) =
     (key \<notin> fst ` set rest \<and> wf_exemplar def \<and> wf_template rest)"
| "wf_exemplar (JObj tdef) = wf_template tdef"
| "wf_exemplar (JArr tarr) =
     (case tarr of
        [] \<Rightarrow> True
      | [JObj titem] \<Rightarrow> wf_template titem
      | [e] \<Rightarrow> True
      | _ \<Rightarrow> False)"
| "wf_exemplar JUndefined = True"
| "wf_exemplar JNull = True"
| "wf_exemplar (JBool b) = True"
| "wf_exemplar (JNum n) = True"
| "wf_exemplar (JStr s) = True"
| "wf_exemplar (JBigInt n) = True"
| "wf_exemplar (JSymbol s) = True"
| "wf_exemplar (JFunction f) = True"
  by pat_completeness auto

termination wf_template
  apply (relation "inv_image (less_than <*lex*> less_than) (\<lambda>x. case x of
     Inl template \<Rightarrow> (size (JObj template), 0)
   | Inr def \<Rightarrow> (size def, Suc 0))")
  apply (rule wf_inv_image, rule wf_lex_prod, rule wf_less_than, rule wf_less_than)
  apply simp_all
  done

section \<open>The debounce controller\<close>

text \<open>
  Time is \<open>Date.now()\<close>, in whole milliseconds. One run of the wrapper or of a timer callback
  is one instant: every \<open>Date.now()\<close> inside it reads the same value. A timer is the handle
  \<open>setTimeout\<close> returned together with the time at which its callback is due; a negative
  delay counts as zero. The variables \<open>timeout\<close> and \<open>maxTimeout\<close> hold a handle exactly
  while that timer is pending in the event loop (every path that cancels or fires a timer
  also nulls or replaces the variable), so the two variables are the timer queue.
  \<open>executions\<close> is the trace of the calls \<open>fn(...pendingArgs)\<close> with their times, and
  \<open>world\<close> is whatever the wrapped function acts on.
\<close>

type_synonym timer = "nat \<times> int"

record options =
  immediate :: bool
  delay :: int
  maxWait :: "int option"

record ('a, 'w) debounce_state =
  timeout :: "timer option"
  maxTimeout :: "timer option"
  lastInvokeTime :: int
  firstCallTime :: int
  pendingArgs :: "'a option"
  nextTimerId :: nat
  executions :: "(int \<times> 'a) list"
  world :: 'w

definition initial_state :: "'w \<Rightarrow> ('a, 'w) debounce_state" where
  "initial_state w =
     \<lparr>timeout = None, maxTimeout = None, lastInvokeTime = 0, firstCallTime = 0,
      pendingArgs = None, nextTimerId = 1, executions = [], world = w\<rparr>"

definition setTimeout :: "nat \<Rightarrow> int \<Rightarrow> int \<Rightarrow> timer" where
  "setTimeout handle now ms = (handle, now + max 0 ms)"

definition invoke ::
  "('a \<Rightarrow> 'w \<Rightarrow> 'w) \<Rightarrow> int \<Rightarrow> ('a, 'w) debounce_state \<Rightarrow> ('a, 'w) debounce_state" where
  "invoke fn now s =
     (case pendingArgs s of
        None \<Rightarrow> s
      | Some args \<Rightarrow>
          s\<lparr>world := fn args (world s),
            executions := executions s @ [(now, args)],
            lastInvokeTime := now,
            firstCallTime := 0,
            pendingArgs := None\<rparr>)"

definition startMaxWaitTimer ::
  "options \<Rightarrow> int \<Rightarrow> ('a, 'w) debounce_state \<Rightarrow> ('a, 'w) debounce_state" where
  "startMaxWaitTimer opts now s =
     (if maxTimeout s \<noteq> None then s
      else case maxWait opts of
        None \<Rightarrow> s
      | Some mw \<Rightarrow>
          (let timeSinceFirstCall = now - firstCallTime s;
               timeLeft = mw - timeSinceFirstCall
           in s\<lparr>maxTimeout := Some (setTimeout (nextTimerId s) now timeLeft),
                nextTimerId := Suc (nextTimerId s)\<rparr>))"

text \<open>The function \<open>#debounce\<close> returns: one call of the debounced function.\<close>

definition debounced ::
  "options \<Rightarrow> ('a \<Rightarrow> 'w \<Rightarrow> 'w) \<Rightarrow> int \<Rightarrow> 'a \<Rightarrow> ('a, 'w) debounce_state
     \<Rightarrow> ('a, 'w) debounce_state" where
  "debounced opts fn now args s =
     (let s1 = s\<lparr>pendingArgs := Some args\<rparr>;
          s2 = (if firstCallTime s1 = 0 then s1\<lparr>firstCallTime := now\<rparr> else s1);
          s3 = (if immediate opts \<and> lastInvokeTime s2 = 0 then invoke fn now s2 else s2);
          s4 = s3\<lparr>timeout := Some (setTimeout (nextTimerId s3) now (delay opts)),
                  nextTimerId := Suc (nextTimerId s3)\<rparr>
      in startMaxWaitTimer opts now s4)"

text \<open>The callback of the trailing timer.\<close>

definition onTimeout ::
  "options \<Rightarrow> ('a \<Rightarrow> 'w \<Rightarrow> 'w) \<Rightarrow> int \<Rightarrow> ('a, 'w) debounce_state \<Rightarrow> ('a, 'w) debounce_state" where
  "onTimeout opts fn now s =
     (let s1 = (if \<not> immediate opts then invoke fn now s else s);
          s2 = (if maxTimeout s1 \<noteq> None then s1\<lparr>maxTimeout := None\<rparr> else s1)
      in s2\<lparr>timeout := None\<rparr>)"

text \<open>The callback of the max-wait timer.\<close>

definition onMaxTimeout ::
  "('a \<Rightarrow> 'w \<Rightarrow> 'w) \<Rightarrow> int \<Rightarrow> ('a, 'w) debounce_state \<Rightarrow> ('a, 'w) debounce_state" where
  "onMaxTimeout fn now s =
     (let s1 = (if timeout s \<noteq> None then s\<lparr>timeout := None\<rparr> else s);
          s2 = invoke fn now s1
      in s2\<lparr>maxTimeout := None\<rparr>)"

subsection \<open>The event loop\<close>

text \<open>
  The event loop runs the pending timer that is due first, at the time it is due; of two
  timers due at the same time the one created first. Each callback cancels the other timer,
  so between two calls of the debounced function at most one callback runs. \<open>advance\<close> lets
  time pass up to and including \<open>t\<close>; \<open>run_calls\<close> feeds a schedule of calls, each after
  the timers due by its time.
\<close>

datatype timer_kind = Trailing | MaxWait

definition next_timer :: "('a, 'w) debounce_state \<Rightarrow> (timer_kind \<times> int) option" where
  "next_timer s =
     (case (timeout s, maxTimeout s) of
        (None, None) \<Rightarrow> None
      | (Some (i, d), None) \<Rightarrow> Some (Trailing, d)
      | (None, Some (j, e)) \<Rightarrow> Some (MaxWait, e)
      | (Some (i, d), Some (j, e)) \<Rightarrow>
          if d < e \<or> (d = e \<and> i < j) then Some (Trailing, d) else Some (MaxWait, e))"

definition advance ::
  "options \<Rightarrow> ('a \<Rightarrow> 'w \<Rightarrow> 'w) \<Rightarrow> int \<Rightarrow> ('a, 'w) debounce_state \<Rightarrow> ('a, 'w) debounce_state" where
  "advance opts fn t s =
     (case next_timer s of
        None \<Rightarrow> s
      | Some (kind, due) \<Rightarrow>
          if due \<le> t
          then (case kind of Trailing \<Rightarrow> onTimeout opts fn due s | MaxWait \<Rightarrow> onMaxTimeout fn due s)
          else s)"

fun run_calls ::
  "options \<Rightarrow> ('a \<Rightarrow> 'w \<Rightarrow> 'w) \<Rightarrow> (int \<times> 'a) list \<Rightarrow> ('a, 'w) debounce_state
     \<Rightarrow> ('a, 'w) debounce_state" where
  "run_calls opts fn [] s = s"
| "run_calls opts fn ((t, args) # calls) s =
     run_calls opts fn calls (debounced opts fn t args (advance opts fn t s))"

text \<open>A schedule in which every call follows the one before by less than \<open>d\<close> milliseconds.\<close>

fun burst :: "int \<Rightarrow> (int \<times> 'a) list \<Rightarrow> bool" where
  "burst d [] = True"
| "burst d [c] = True"
| "burst d ((t, a) # (t', a') # calls) =
     (t \<le> t' \<and> t' - t < d \<and> burst d ((t', a') # calls))"

text \<open>
  What holds between tasks when \<open>immediate\<close> is false: with no trailing timer pending
  nothing else is pending either, and a pending trailing timer has arguments to run.
\<close>

definition consistent :: "('a, 'w) debounce_state \<Rightarrow> bool" where
  "consistent s \<longleftrightarrow>
     (timeout s = None \<longrightarrow>
        maxTimeout s = None \<and> pendingArgs s = None \<and> firstCallTime s = 0)
     \<and> (timeout s \<noteq> None \<longrightarrow> pendingArgs s \<noteq> None)"

text \<open>A wrapped function that does nothing, for concrete runs.\<close>

definition no_effect :: "'a \<Rightarrow> unit \<Rightarrow> unit" where
  "no_effect args w = w"

subsection \<open>Options\<close>

text \<open>
  The options object a caller may pass, each field possibly absent. \<open>constructor_options\<close> is
  the \<open>??\<close> defaulting of the \<open>StateManager\<close> constructor, \<open>debounce_defaults\<close> the
  destructuring defaults of \<open>#debounce\<close>.
\<close>

record raw_options =
  opt_immediate :: "bool option"
  opt_delay :: "int option"
  opt_maxWait :: "int option"

definition constructor_options :: "raw_options option \<Rightarrow> raw_options" where
  "constructor_options debounceOptions =
     \<lparr>opt_immediate =
        Some (case Option.bind debounceOptions opt_immediate of None \<Rightarrow> False | Some b \<Rightarrow> b),
      opt_delay =
        Some (case Option.bind debounceOptions opt_delay of None \<Rightarrow> 0 | Some d \<Rightarrow> d),
      opt_maxWait =
        Some (case Option.bind debounceOptions opt_maxWait of None \<Rightarrow> 0 | Some m \<Rightarrow> m)\<rparr>"

definition debounce_defaults :: "raw_options \<Rightarrow> options" where
  "debounce_defaults r =
     \<lparr>immediate = (case opt_immediate r of None \<Rightarrow> False | Some b \<Rightarrow> b),
      delay = (case opt_delay r of None \<Rightarrow> 1000 | Some d \<Rightarrow> d),
      maxWait = opt_maxWait r\<rparr>"

definition manager_options :: "raw_options option \<Rightarrow> options" where
  "manager_options debounceOptions = debounce_defaults (constructor_options debounceOptions)"

section \<open>The state manager\<close>

text \<open>
  Both versions of \<open>StateManager\<close> in the sources are modelled; they differ in what they
  write to the console. The manager acts on its reactive \<open>state\<close> object and on the console.
  A promise is modelled by how it settles: \<open>Inl\<close> an error for a rejection, \<open>Inr\<close> for a
  resolution. \<open>rejections\<close> collects the promises of the wrapped save function that were
  rejected: \<open>invoke\<close> drops the promise \<open>fn(...)\<close> returns, so nobody observes them.
  \<open>saveCalls\<close> lists the snapshots handed to \<open>saveCallback\<close>. A callback is given by its
  outcome: what it throws (or rejects with), or what it returns.
\<close>

datatype js_error = Thrown jsval | DataCloneError

datatype log_entry = LoadFailedLog js_error | SaveFailedLog js_error

record manager_world =
  state :: jsobject
  console :: "log_entry list"
  rejections :: "js_error list"
  saveCalls :: "jsobject list"

text \<open>
  \<open>structuredClone\<close> copies a value deeply and throws on a function or a symbol; the copy of
  a value is the same value. \<open>$state.snapshot\<close> is the plain copy of the state.
\<close>

function cloneable :: "jsval \<Rightarrow> bool"
  and cloneable_items :: "jsval list \<Rightarrow> bool"
  and cloneable_entries :: "jsobject \<Rightarrow> bool"
where
  "cloneable (JFunction f) = False"
| "cloneable (JSymbol s) = False"
| "cloneable (JArr xs) = cloneable_items xs"
| "cloneable (JObj kvs) = cloneable_entries kvs"
| "cloneable JUndefined = True"
| "cloneable JNull = True"
| "cloneable (JBool b) = True"
| "cloneable (JNum n) = True"
| "cloneable (JStr s) = True"
| "cloneable (JBigInt n) = True"
| "cloneable_items [] = True"
| "cloneable_items (x # xs) = (cloneable x \<and> cloneable_items xs)"
| "cloneable_entries [] = True"
| "cloneable_entries ((key, v) # kvs) = (cloneable v \<and> cloneable_entries kvs)"
  by pat_completeness auto

termination cloneable
  apply (relation "inv_image (less_than <*lex*> less_than) (\<lambda>x. case x of
     Inl v \<Rightarrow> (size v, Suc 0)
   | Inr (Inl xs) \<Rightarrow> (size (JArr xs), 0)
   | Inr (Inr kvs) \<Rightarrow> (size (JObj kvs), 0))")
  apply (rule wf_inv_image, rule wf_lex_prod, rule wf_less_than, rule wf_less_than)
  apply simp_all
  done

definition structuredClone :: "jsobject \<Rightarrow> js_error + jsobject" where
  "structuredClone data = (if cloneable (JObj data) then Inr data else Inl DataCloneError)"

text \<open>\<open>target[key] = v\<close> and \<open>Object.assign(target, source)\<close>.\<close>

fun set_prop :: "jsobject \<Rightarrow> string \<Rightarrow> jsval \<Rightarrow> jsobject" where
  "set_prop [] key v = [(key, v)]"
| "set_prop ((k, old) # rest) key v =
     (if k = key then (k, v) # rest else (k, old) # set_prop rest key v)"

definition object_assign :: "jsobject \<Rightarrow> jsobject \<Rightarrow> jsobject" where
  "object_assign target source = fold (\<lambda>(key, v) t. set_prop t key v) source target"

text \<open>
  \<open>load()\<close>: the settled promise and the manager afterwards. The first version logs in its
  \<open>catch\<close> and re-throws, the second only re-throws.
\<close>

definition load_v1 ::
  "(js_error + jsobject) option \<Rightarrow> manager_world \<Rightarrow> (js_error + unit) \<times> manager_world" where
  "load_v1 loadCallback w =
     (case loadCallback of
        None \<Rightarrow> (Inr (), w)
      | Some outcome \<Rightarrow>
          (case (case outcome of Inl e \<Rightarrow> Inl e | Inr loadedData \<Rightarrow> structuredClone loadedData) of
             Inl error \<Rightarrow> (Inl error, w\<lparr>console := console w @ [LoadFailedLog error]\<rparr>)
           | Inr data \<Rightarrow> (Inr (), w\<lparr>state := object_assign (state w) data\<rparr>)))"

definition load_v2 ::
  "(js_error + jsobject) option \<Rightarrow> manager_world \<Rightarrow> (js_error + unit) \<times> manager_world" where
  "load_v2 loadCallback w =
     (case loadCallback of
        None \<Rightarrow> (Inr (), w)
      | Some outcome \<Rightarrow>
          (case (case outcome of Inl e \<Rightarrow> Inl e | Inr loadedData \<Rightarrow> structuredClone loadedData) of
             Inl error \<Rightarrow> (Inl error, w)
           | Inr data \<Rightarrow> (Inr (), w\<lparr>state := object_assign (state w) data\<rparr>)))"

text \<open>
  The async function the constructor hands to \<open>#debounce\<close>: snapshot, clone, call
  \<open>saveCallback\<close>; an error ends in the rejection of the promise it returns.
\<close>

definition persist_v1 ::
  "(jsobject \<Rightarrow> js_error + unit) option \<Rightarrow> unit \<Rightarrow> manager_world \<Rightarrow> manager_world" where
  "persist_v1 saveCallback args w =
     (case saveCallback of
        None \<Rightarrow> w
      | Some cb \<Rightarrow>
          (case structuredClone (state w) of
             Inl error \<Rightarrow>
               w\<lparr>console := console w @ [SaveFailedLog error],
                 rejections := rejections w @ [error]\<rparr>
           | Inr stateSnapshot \<Rightarrow>
               (case cb stateSnapshot of
                  Inl error \<Rightarrow>
                    w\<lparr>console := console w @ [SaveFailedLog error],
                      rejections := rejections w @ [error],
                      saveCalls := saveCalls w @ [stateSnapshot]\<rparr>
                | Inr u \<Rightarrow> w\<lparr>saveCalls := saveCalls w @ [stateSnapshot]\<rparr>)))"

definition persist_v2 ::
  "(jsobject \<Rightarrow> js_error + unit) option \<Rightarrow> unit \<Rightarrow> manager_world \<Rightarrow> manager_world" where
  "persist_v2 saveCallback args w =
     (case saveCallback of
        None \<Rightarrow> w
      | Some cb \<Rightarrow>
          (case structuredClone (state w) of
             Inl error \<Rightarrow> w\<lparr>rejections := rejections w @ [error]\<rparr>
           | Inr stateSnapshot \<Rightarrow>
               (case cb stateSnapshot of
                  Inl error \<Rightarrow>
                    w\<lparr>rejections := rejections w @ [error],
                      saveCalls := saveCalls w @ [stateSnapshot]\<rparr>
                | Inr u \<Rightarrow> w\<lparr>saveCalls := saveCalls w @ [stateSnapshot]\<rparr>)))"

text \<open>
  The field \<open>debouncedSave\<close> as the constructor leaves it: in the first version undefined
  without a \<open>saveCallback\<close>, in the second the empty function. \<open>save()\<close> is the same in both.
\<close>

type_synonym manager = "(unit, manager_world) debounce_state"

definition debouncedSave_v1 ::
  "(jsobject \<Rightarrow> js_error + unit) option \<Rightarrow> raw_options option
     \<Rightarrow> (int \<Rightarrow> manager \<Rightarrow> manager) option" where
  "debouncedSave_v1 saveCallback debounceOptions =
     (case saveCallback of
        None \<Rightarrow> None
      | Some cb \<Rightarrow>
          Some (\<lambda>now. debounced (manager_options debounceOptions) (persist_v1 (Some cb)) now ()))"

definition debouncedSave_v2 ::
  "(jsobject \<Rightarrow> js_error + unit) option \<Rightarrow> raw_options option
     \<Rightarrow> (int \<Rightarrow> manager \<Rightarrow> manager) option" where
  "debouncedSave_v2 saveCallback debounceOptions =
     (case saveCallback of
        None \<Rightarrow> Some (\<lambda>now m. m)
      | Some cb \<Rightarrow>
          Some (\<lambda>now. debounced (manager_options debounceOptions) (persist_v2 (Some cb)) now ()))"

definition save ::
  "(int \<Rightarrow> ('a, 'w) debounce_state \<Rightarrow> ('a, 'w) debounce_state) option \<Rightarrow> int
     \<Rightarrow> ('a, 'w) debounce_state \<Rightarrow> (js_error + unit) \<times> ('a, 'w) debounce_state" where
  "save debouncedSave now m =
     (case debouncedSave of
        None \<Rightarrow> (Inr (), m)
      | Some f \<Rightarrow> (Inr (), f now m))"

text \<open>A save callback that always fails, and a manager world with nothing in it.\<close>

definition failing_callback :: "jsobject \<Rightarrow> js_error + unit" where
  "failing_callback stateSnapshot = Inl (Thrown (JStr ''quota exceeded''))"

definition empty_world :: manager_world where
  "empty_world = \<lparr>state = [], console = [], rejections = [], saveCalls = []\<rparr>"

section \<open>The storage binding\<close>

text \<open>
  The module \<open>state.svelte.ts\<close>: its two flags, the manager it constructs with
  \<open>{ delay: 500, maxWait: 1000 }\<close>, and what happens to it. The reactive framework is outside
  the sources; its part is the events: the promise of the initial \<open>load()\<close> settles (the rest of the module's
  start-up function then runs, its \<open>try\<close> or its \<open>catch\<close>), the root
  component calls \<open>initialiseStorageAutoSave\<close> (the framework then runs the new effect once),
  and a mutation of the state makes the framework run the registered effect again.
  \<open>storageSets\<close> counts the direct writes of the clean-up after a load, \<open>effectsRegistered\<close>
  the calls of \<open>$effect\<close>.
\<close>

record 'w binding =
  storageLoaded :: bool
  autoSaveEffectRegistered :: bool
  effectsRegistered :: nat
  storageSets :: nat
  loadErrors :: "js_error list"
  stateManager :: "(unit, 'w) debounce_state"

datatype binding_event =
  LoadSettled "js_error + unit" | InitialiseStorageAutoSave | StateMutated

definition binding_options :: options where
  "binding_options =
     manager_options (Some \<lparr>opt_immediate = None, opt_delay = Some 500, opt_maxWait = Some 1000\<rparr>)"

definition initial_binding :: "'w \<Rightarrow> 'w binding" where
  "initial_binding w =
     \<lparr>storageLoaded = False, autoSaveEffectRegistered = False, effectsRegistered = 0,
      storageSets = 0, loadErrors = [], stateManager = initial_state w\<rparr>"

text \<open>The body of the effect: the guard, then \<open>stateManager.save()\<close>.\<close>

definition autoSaveEffect :: "(unit \<Rightarrow> 'w \<Rightarrow> 'w) \<Rightarrow> int \<Rightarrow> 'w binding \<Rightarrow> 'w binding" where
  "autoSaveEffect fn now b =
     (if \<not> storageLoaded b then b
      else b\<lparr>stateManager :=
             snd (save (Some (\<lambda>t. debounced binding_options fn t ())) now (stateManager b))\<rparr>)"

fun binding_step ::
  "(unit \<Rightarrow> 'w \<Rightarrow> 'w) \<Rightarrow> int \<Rightarrow> binding_event \<Rightarrow> 'w binding \<Rightarrow> 'w binding" where
  "binding_step fn now (LoadSettled outcome) b =
     (case outcome of
        Inr u \<Rightarrow> b\<lparr>storageLoaded := True, storageSets := Suc (storageSets b)\<rparr>
      | Inl error \<Rightarrow> b\<lparr>loadErrors := loadErrors b @ [error]\<rparr>)"
| "binding_step fn now InitialiseStorageAutoSave b =
     (if autoSaveEffectRegistered b then b
      else autoSaveEffect fn now
             (b\<lparr>autoSaveEffectRegistered := True,
                effectsRegistered := Suc (effectsRegistered b)\<rparr>))"
| "binding_step fn now StateMutated b =
     (if autoSaveEffectRegistered b then autoSaveEffect fn now b else b)"

text \<open>A history of events with their times; before each, the timers due by then fire.\<close>

fun binding_run ::
  "(unit \<Rightarrow> 'w \<Rightarrow> 'w) \<Rightarrow> (int \<times> binding_event) list \<Rightarrow> 'w binding \<Rightarrow> 'w binding" where
  "binding_run fn [] b = b"
| "binding_run fn ((t, ev) # evs) b =
     binding_run fn evs
       (binding_step fn t ev
          (b\<lparr>stateManager := advance binding_options fn t (stateManager b)\<rparr>))"

section \<open>Properties of the sanitizer\<close>

lemma isPlainObject_iff: "isPlainObject v \<longleftrightarrow> (\<exists>kvs. v = JObj kvs)"
  by (cases v) (simp_all add: isPlainObject_def)

lemma wf_template_distinct: "wf_template T \<Longrightarrow> distinct (map fst T)"
  by (induction T) force+

lemma map_of_cleanObject:
  "map_of (cleanObject x T) k = map_option (cleanValue (get_prop x k)) (map_of T k)"
  by (induction T) auto

lemma get_prop_cleanObject_map_of:
  "map_of template key = Some d \<Longrightarrow>
     get_prop (cleanObject object template) key = cleanValue (get_prop object key) d"
  by (simp add: get_prop_def map_of_cleanObject)

lemma get_prop_cleanObject:
  assumes "distinct (map fst T)" "(k, d) \<in> set T"
  shows "get_prop (cleanObject x T) k = cleanValue (get_prop x k) d"
proof -
  have "map_of T k = Some d" using assms by simp
  then show ?thesis by (rule get_prop_cleanObject_map_of)
qed

lemma get_prop_self:
  assumes "distinct (map fst T)" "(k, d) \<in> set T"
  shows "get_prop T k = d"
  using assms by (simp add: get_prop_def)

text \<open>A well-formed template, read as an input, is returned as it is.\<close>

lemma clean_self:
  "wf_template T \<longrightarrow>
     (\<forall>x. (\<forall>k d. (k, d) \<in> set T \<longrightarrow> get_prop x k = d) \<longrightarrow> cleanObject x T = T)"
  "wf_exemplar e \<longrightarrow> cleanValue e e = e"
proof (induction T and e rule: wf_template_wf_exemplar.induct)
  case (3 tdef)
  show ?case
  proof
    assume wf: "wf_exemplar (JObj tdef)"
    then have "\<forall>k d. (k, d) \<in> set tdef \<longrightarrow> get_prop tdef k = d"
      by (auto simp: get_prop_self wf_template_distinct)
    with 3 wf show "cleanValue (JObj tdef) (JObj tdef) = JObj tdef" by simp
  qed
next
  case (4 tarr)
  show ?case
  proof
    assume wf: "wf_exemplar (JArr tarr)"
    show "cleanValue (JArr tarr) (JArr tarr) = JArr tarr"
    proof (cases tarr)
      case Nil
      then show ?thesis by simp
    next
      case (Cons e extra)
      with wf have extra: "extra = []" by (auto split: list.splits jsval.splits)
      show ?thesis
      proof (cases e)
        case (JObj titem)
        with wf Cons extra have wft: "wf_template titem" by simp
        then have "\<forall>k d. (k, d) \<in> set titem \<longrightarrow> get_prop titem k = d"
          by (auto simp: get_prop_self wf_template_distinct)
        with 4 Cons extra JObj wft have "cleanObject titem titem = titem" by simp
        with Cons extra JObj show ?thesis by simp
      qed (simp_all add: Cons extra)
    qed
  qed
qed auto

lemma cleanObject_self: "wf_template T \<Longrightarrow> cleanObject T T = T"
proof -
  assume wf: "wf_template T"
  then have "\<forall>k d. (k, d) \<in> set T \<longrightarrow> get_prop T k = d"
    by (auto simp: get_prop_self wf_template_distinct)
  with clean_self(1)[of T] wf show ?thesis by blast
qed

lemma cleanItems_idem:
  assumes self: "cleanObject titem titem = titem"
    and idem: "\<And>u. cleanObject (cleanObject u titem) titem = cleanObject u titem"
  shows "cleanItems (cleanItems items titem) titem = cleanItems items titem"
  by (induction items) (auto simp: self idem split: jsval.splits)

lemma cleanObject_lookups:
  "wf_template T \<Longrightarrow>
     \<forall>k d. (k, d) \<in> set T \<longrightarrow> get_prop (cleanObject x T) k = cleanValue (get_prop x k) d"
  by (auto simp: get_prop_cleanObject wf_template_distinct)

text \<open>
  The second pass reads, under every template key, what the first pass wrote there; so it is
  enough that cleaning one value twice is cleaning it once.
\<close>

lemma clean_idem:
  "wf_template T \<longrightarrow>
     (\<forall>x y. (\<forall>k d. (k, d) \<in> set T \<longrightarrow> get_prop y k = cleanValue (get_prop x k) d)
        \<longrightarrow> cleanObject y T = cleanObject x T)"
  "wf_exemplar e \<longrightarrow> (\<forall>v. cleanValue (cleanValue v e) e = cleanValue v e)"
proof (induction T and e rule: wf_template_wf_exemplar.induct)
  case (2 key "def" rest)
  then show ?case by auto
next
  case (3 tdef)
  show ?case
  proof (intro impI allI)
    fix v
    assume wf: "wf_exemplar (JObj tdef)"
    then have wft: "wf_template tdef" by simp
    have idem: "cleanObject (cleanObject u tdef) tdef = cleanObject u tdef" for u
      using 3 wft cleanObject_lookups[OF wft, of u] by blast
    show "cleanValue (cleanValue v (JObj tdef)) (JObj tdef) = cleanValue v (JObj tdef)"
      by (cases v) (simp_all add: idem cleanObject_self[OF wft])
  qed
next
  case (4 tarr)
  show ?case
  proof (intro impI allI)
    fix v
    assume wf: "wf_exemplar (JArr tarr)"
    show "cleanValue (cleanValue v (JArr tarr)) (JArr tarr) = cleanValue v (JArr tarr)"
    proof (cases tarr)
      case Nil
      then show ?thesis by (auto split: jsval.splits list.splits)
    next
      case (Cons e extra)
      with wf have extra: "extra = []" by (auto split: list.splits jsval.splits)
      show ?thesis
      proof (cases e)
        case (JObj titem)
        with wf Cons extra have wft: "wf_template titem" by simp
        have idem: "cleanObject (cleanObject u titem) titem = cleanObject u titem" for u
          using 4(1)[OF Cons JObj extra] wft cleanObject_lookups[OF wft, of u] by blast
        note ci = cleanItems_idem[OF cleanObject_self[OF wft] idem]
        show ?thesis
          using Cons extra JObj ci cleanObject_self[OF wft] idem
          by (auto split: jsval.splits list.splits)
      qed (auto simp: Cons extra split: jsval.splits list.splits)
    qed
  qed
qed auto

text \<open>
  Claim C4. The sanitizer is idempotent: for every input object \<open>x\<close> and every well-formed
  template \<open>T\<close>, cleaning the cleaned object against \<open>T\<close> again gives the cleaned object.
\<close>

theorem sanitizer_idempotent:
  "wf_template T \<Longrightarrow> cleanObject (cleanObject x T) T = cleanObject x T"
  using clean_idem(1)[of T] cleanObject_lookups[of T x] by blast

theorem sanitizer_idempotent_witness:
  "wf_template [(''a'', JNum 1), (''b'', JObj [(''c'', JBool True)])]
   \<and> cleanObject
        (cleanObject [(''a'', JStr ''x''), (''b'', JObj [(''c'', JNum 1), (''d'', JNum 9)])]
           [(''a'', JNum 1), (''b'', JObj [(''c'', JBool True)])])
        [(''a'', JNum 1), (''b'', JObj [(''c'', JBool True)])]
      = cleanObject [(''a'', JStr ''x''), (''b'', JObj [(''c'', JNum 1), (''d'', JNum 9)])]
          [(''a'', JNum 1), (''b'', JObj [(''c'', JBool True)])]"
proof -
  have wf: "wf_template [(''a'', JNum 1), (''b'', JObj [(''c'', JBool True)])]"
    by simp
  from wf sanitizer_idempotent[OF wf] show ?thesis by (rule conjI)
qed

lemma cleanArray_primitive:
  "isPrimitive e \<Longrightarrow> cleanArray userArr (e # extra) =
     (if list_all (\<lambda>item. typeof item = typeof e) userArr then userArr else e # extra)"
  by (cases e) simp_all

text \<open>
  Claim C7. For a template key whose template value is a non-empty array with a primitive
  exemplar: when the input value under the key is a non-empty array whose elements all have
  the \<open>typeof\<close> of the exemplar, the output under the key is the input array; in every other
  case (a mistyped element, or an input value that is missing, empty or not an array) it is
  the template array. With the template \<open>{tags: [""]}\<close>, the input \<open>{tags: [1, 2]}\<close> gives
  \<open>{tags: [""]}\<close> and the input \<open>{tags: ["x", "y"]}\<close> gives \<open>{tags: ["x", "y"]}\<close>.
\<close>

theorem array_exemplar_repair:
  "(\<forall>template key e extra object u us.
      map_of template key = Some (JArr (e # extra)) \<and> isPrimitive e \<and>
      get_prop object key = JArr (u # us) \<and>
      list_all (\<lambda>item. typeof item = typeof e) (u # us)
      \<longrightarrow> get_prop (cleanObject object template) key = JArr (u # us))
   \<and> (\<forall>template key e extra object.
      map_of template key = Some (JArr (e # extra)) \<and> isPrimitive e \<and>
      \<not> (\<exists>u us. get_prop object key = JArr (u # us) \<and>
             list_all (\<lambda>item. typeof item = typeof e) (u # us))
      \<longrightarrow> get_prop (cleanObject object template) key = JArr (e # extra))
   \<and> cleanObject [(''tags'', JArr [JNum 1, JNum 2])] [(''tags'', JArr [JStr ''''])]
        = [(''tags'', JArr [JStr ''''])]
   \<and> cleanObject [(''tags'', JArr [JStr ''x'', JStr ''y''])] [(''tags'', JArr [JStr ''''])]
        = [(''tags'', JArr [JStr ''x'', JStr ''y''])]"
proof (intro conjI allI impI)
  fix template key e extra object u us
  assume a: "map_of template key = Some (JArr (e # extra)) \<and> isPrimitive e \<and>
      get_prop object key = JArr (u # us) \<and>
      list_all (\<lambda>item. typeof item = typeof e) (u # us)"
  then show "get_prop (cleanObject object template) key = JArr (u # us)"
    by (simp add: get_prop_cleanObject_map_of cleanArray_primitive del: cleanArray.simps)
next
  fix template key e extra object
  assume a: "map_of template key = Some (JArr (e # extra)) \<and> isPrimitive e \<and>
      \<not> (\<exists>u us. get_prop object key = JArr (u # us) \<and>
             list_all (\<lambda>item. typeof item = typeof e) (u # us))"
  then have "cleanValue (get_prop object key) (JArr (e # extra)) = JArr (e # extra)"
    by (cases "get_prop object key")
       (auto simp: cleanArray_primitive split: list.splits simp del: cleanArray.simps)
  with a show "get_prop (cleanObject object template) key = JArr (e # extra)"
    by (simp add: get_prop_cleanObject_map_of)
next
  show "cleanObject [(''tags'', JArr [JNum 1, JNum 2])] [(''tags'', JArr [JStr ''''])]
        = [(''tags'', JArr [JStr ''''])]"
    by (simp add: get_prop_def)
next
  show "cleanObject [(''tags'', JArr [JStr ''x'', JStr ''y''])] [(''tags'', JArr [JStr ''''])]
        = [(''tags'', JArr [JStr ''x'', JStr ''y''])]"
    by (simp add: get_prop_def)
qed

theorem array_exemplar_repair_witness:
  "get_prop (cleanObject [(''tags'', JArr [JStr ''x'', JStr ''y''])]
       [(''tags'', JArr [JStr ''''])]) ''tags''
     = JArr [JStr ''x'', JStr ''y'']
   \<and> get_prop (cleanObject [(''tags'', JArr [JNum 1, JNum 2])]
       [(''tags'', JArr [JStr ''''])]) ''tags''
     = JArr [JStr '''']"
proof (rule conjI)
  have h: "map_of [(''tags'', JArr [JStr ''''])] ''tags'' = Some (JArr (JStr '''' # [])) \<and>
      isPrimitive (JStr '''') \<and>
      get_prop [(''tags'', JArr [JStr ''x'', JStr ''y''])] ''tags''
        = JArr (JStr ''x'' # [JStr ''y'']) \<and>
      list_all (\<lambda>item. typeof item = typeof (JStr '''')) (JStr ''x'' # [JStr ''y''])"
    by (simp add: get_prop_def)
  from array_exemplar_repair[THEN conjunct1, rule_format, OF h]
  show "get_prop (cleanObject [(''tags'', JArr [JStr ''x'', JStr ''y''])]
       [(''tags'', JArr [JStr ''''])]) ''tags''
     = JArr [JStr ''x'', JStr ''y'']" .
next
  have h: "map_of [(''tags'', JArr [JStr ''''])] ''tags'' = Some (JArr (JStr '''' # [])) \<and>
      isPrimitive (JStr '''') \<and>
      \<not> (\<exists>u us. get_prop [(''tags'', JArr [JNum 1, JNum 2])] ''tags'' = JArr (u # us) \<and>
             list_all (\<lambda>item. typeof item = typeof (JStr '''')) (u # us))"
    by (simp add: get_prop_def)
  from array_exemplar_repair[THEN conjunct2, THEN conjunct1, rule_format, OF h]
  show "get_prop (cleanObject [(''tags'', JArr [JNum 1, JNum 2])]
       [(''tags'', JArr [JStr ''''])]) ''tags''
     = JArr [JStr '''']" .
qed

section \<open>Properties of the debounce controller\<close>

subsection \<open>What each step does to each variable\<close>

lemma invoke_Some:
  "pendingArgs s = Some a \<Longrightarrow> invoke fn now s =
     s\<lparr>world := fn a (world s), executions := executions s @ [(now, a)],
       lastInvokeTime := now, firstCallTime := 0, pendingArgs := None\<rparr>"
  by (simp add: invoke_def)

lemma onTimeout_eq:
  "onTimeout opts fn now s =
     (if immediate opts then s else invoke fn now s)\<lparr>maxTimeout := None, timeout := None\<rparr>"
  by (cases "maxTimeout s"; cases "pendingArgs s") (simp_all add: onTimeout_def invoke_def Let_def)

lemma onMaxTimeout_eq:
  "onMaxTimeout fn now s = (invoke fn now s)\<lparr>timeout := None, maxTimeout := None\<rparr>"
  by (cases "timeout s"; cases "pendingArgs s") (simp_all add: onMaxTimeout_def invoke_def Let_def)

lemma startMaxWaitTimer_running:
  "maxTimeout s = Some m \<Longrightarrow> startMaxWaitTimer opts now s = s"
  by (simp add: startMaxWaitTimer_def)

lemma startMaxWaitTimer_disabled:
  "maxWait opts = None \<Longrightarrow> startMaxWaitTimer opts now s = s"
  by (simp add: startMaxWaitTimer_def)

lemma startMaxWaitTimer_arms:
  "maxTimeout s = None \<Longrightarrow> maxWait opts = Some mw \<Longrightarrow>
     startMaxWaitTimer opts now s =
       s\<lparr>maxTimeout := Some (nextTimerId s, now + max 0 (mw - (now - firstCallTime s))),
         nextTimerId := Suc (nextTimerId s)\<rparr>"
  by (simp add: startMaxWaitTimer_def setTimeout_def Let_def)

lemma startMaxWaitTimer_fields:
  "timeout (startMaxWaitTimer opts now s) = timeout s"
  "pendingArgs (startMaxWaitTimer opts now s) = pendingArgs s"
  "firstCallTime (startMaxWaitTimer opts now s) = firstCallTime s"
  "lastInvokeTime (startMaxWaitTimer opts now s) = lastInvokeTime s"
  "executions (startMaxWaitTimer opts now s) = executions s"
  "world (startMaxWaitTimer opts now s) = world s"
  by (simp_all add: startMaxWaitTimer_def Let_def split: option.splits)

lemma maxTimeout_startMaxWaitTimer:
  "maxTimeout (startMaxWaitTimer opts now s) =
     (case maxTimeout s of
        Some m \<Rightarrow> Some m
      | None \<Rightarrow>
          (case maxWait opts of
             None \<Rightarrow> None
           | Some mw \<Rightarrow> Some (nextTimerId s, now + max 0 (mw - (now - firstCallTime s)))))"
  by (cases "maxTimeout s"; cases "maxWait opts")
     (simp_all add: startMaxWaitTimer_running startMaxWaitTimer_disabled startMaxWaitTimer_arms)

lemma debounced_eq:
  "debounced opts fn now a s =
     startMaxWaitTimer opts now
       ((if immediate opts \<and> lastInvokeTime s = 0
         then s\<lparr>world := fn a (world s), executions := executions s @ [(now, a)],
                lastInvokeTime := now, firstCallTime := 0, pendingArgs := None\<rparr>
         else s\<lparr>pendingArgs := Some a,
                firstCallTime := (if firstCallTime s = 0 then now else firstCallTime s)\<rparr>)
        \<lparr>timeout := Some (nextTimerId s, now + max 0 (delay opts)),
         nextTimerId := Suc (nextTimerId s)\<rparr>)"
  by (simp add: debounced_def invoke_def setTimeout_def Let_def)

lemma debounced_fields:
  "timeout (debounced opts fn now a s) = Some (nextTimerId s, now + max 0 (delay opts))"
  "pendingArgs (debounced opts fn now a s) =
     (if immediate opts \<and> lastInvokeTime s = 0 then None else Some a)"
  "firstCallTime (debounced opts fn now a s) =
     (if immediate opts \<and> lastInvokeTime s = 0 then 0
      else if firstCallTime s = 0 then now else firstCallTime s)"
  "lastInvokeTime (debounced opts fn now a s) =
     (if immediate opts \<and> lastInvokeTime s = 0 then now else lastInvokeTime s)"
  "executions (debounced opts fn now a s) =
     (if immediate opts \<and> lastInvokeTime s = 0 then executions s @ [(now, a)] else executions s)"
  "world (debounced opts fn now a s) =
     (if immediate opts \<and> lastInvokeTime s = 0 then fn a (world s) else world s)"
  by (simp_all add: debounced_eq startMaxWaitTimer_fields)

lemma maxTimeout_debounced:
  "maxTimeout (debounced opts fn now a s) =
     (case maxTimeout s of
        Some m \<Rightarrow> Some m
      | None \<Rightarrow>
          (case maxWait opts of
             None \<Rightarrow> None
           | Some mw \<Rightarrow>
               Some (Suc (nextTimerId s),
                     now + max 0 (mw - (now - firstCallTime (debounced opts fn now a s))))))"
  by (simp add: debounced_eq maxTimeout_startMaxWaitTimer startMaxWaitTimer_fields
      split: option.splits)

text \<open>A callback leaves no timer behind, so one firing is all that time passing can bring.\<close>

lemma after_fire_idle:
  "timeout (onTimeout opts fn now s) = None" "maxTimeout (onTimeout opts fn now s) = None"
  "timeout (onMaxTimeout fn now s) = None" "maxTimeout (onMaxTimeout fn now s) = None"
  by (simp_all add: onTimeout_eq onMaxTimeout_eq)

lemma advance_advance: "advance opts fn t (advance opts fn t s) = advance opts fn t s"
  by (auto simp: advance_def next_timer_def after_fire_idle split: option.splits timer_kind.splits)

subsection \<open>Trailing mode without a maximum wait\<close>

lemma debounced_trailing_only:
  assumes "\<not> immediate opts" "maxWait opts = None" "maxTimeout s = None"
  shows "debounced opts fn now a s =
     s\<lparr>pendingArgs := Some a,
       firstCallTime := (if firstCallTime s = 0 then now else firstCallTime s),
       timeout := Some (nextTimerId s, now + max 0 (delay opts)),
       nextTimerId := Suc (nextTimerId s)\<rparr>"
  using assms by (simp add: debounced_eq startMaxWaitTimer_disabled)

lemma advance_not_due:
  assumes "maxTimeout s = None" "timeout s = None \<or> (\<exists>i d. timeout s = Some (i, d) \<and> t < d)"
  shows "advance opts fn t s = s"
  using assms by (auto simp: advance_def next_timer_def)

lemma advance_trailing_due:
  assumes "maxTimeout s = None" "timeout s = Some (i, d)" "d \<le> t" "\<not> immediate opts"
  shows "advance opts fn t s = (invoke fn d s)\<lparr>timeout := None\<rparr>"
  using assms
  by (cases "pendingArgs s") (auto simp: advance_def next_timer_def onTimeout_eq invoke_def)

text \<open>
  During a burst every call finds the trailing timer of the call before still pending and
  replaces it; nothing runs.
\<close>

lemma run_burst:
  assumes "\<not> immediate opts" "maxWait opts = None"
  shows "calls \<noteq> [] \<Longrightarrow> burst (delay opts) calls \<Longrightarrow> maxTimeout s = None \<Longrightarrow>
     timeout s = None \<or> (\<exists>i d. timeout s = Some (i, d) \<and> fst (hd calls) < d) \<Longrightarrow>
     (\<exists>i. timeout (run_calls opts fn calls s) = Some (i, fst (last calls) + max 0 (delay opts)))
     \<and> maxTimeout (run_calls opts fn calls s) = None
     \<and> pendingArgs (run_calls opts fn calls s) = Some (snd (last calls))
     \<and> executions (run_calls opts fn calls s) = executions s
     \<and> world (run_calls opts fn calls s) = world s"
proof (induction calls arbitrary: s)
  case Nil
  then show ?case by simp
next
  case (Cons c calls)
  obtain t a where c: "c = (t, a)" by (cases c)
  let ?s1 = "debounced opts fn t a (advance opts fn t s)"
  have adv: "advance opts fn t s = s"
    using Cons.prems c by (intro advance_not_due) auto
  have s1: "?s1 = s\<lparr>pendingArgs := Some a,
       firstCallTime := (if firstCallTime s = 0 then t else firstCallTime s),
       timeout := Some (nextTimerId s, t + max 0 (delay opts)),
       nextTimerId := Suc (nextTimerId s)\<rparr>"
    using Cons.prems assms by (simp add: adv debounced_trailing_only)
  show ?case
  proof (cases calls)
    case Nil
    then show ?thesis using c s1 Cons.prems by simp
  next
    case (Cons c' calls')
    obtain t' a' where c': "c' = (t', a')" by (cases c')
    have b: "t' - t < delay opts" "burst (delay opts) calls"
      using Cons.prems(2) c c' Cons by simp_all
    have "(\<exists>i. timeout (run_calls opts fn calls ?s1)
                  = Some (i, fst (last calls) + max 0 (delay opts)))
     \<and> maxTimeout (run_calls opts fn calls ?s1) = None
     \<and> pendingArgs (run_calls opts fn calls ?s1) = Some (snd (last calls))
     \<and> executions (run_calls opts fn calls ?s1) = executions ?s1
     \<and> world (run_calls opts fn calls ?s1) = world ?s1"
    proof (rule Cons.IH)
      show "calls \<noteq> []" using Cons by simp
      show "burst (delay opts) calls" by fact
      show "maxTimeout ?s1 = None" using s1 Cons.prems by simp
      show "timeout ?s1 = None \<or> (\<exists>i d. timeout ?s1 = Some (i, d) \<and> fst (hd calls) < d)"
        using s1 b Cons c' by auto
    qed
    then show ?thesis using c Cons s1 by simp
  qed
qed

text \<open>
  Claim C1. For a debounced function created with \<open>immediate = false\<close> and \<open>maxWait\<close>
  undefined, and a sequence of one or more calls each less than \<open>delay\<close> milliseconds after
  the one before: nothing runs during the sequence or before \<open>delay\<close> milliseconds have
  passed since the last call; at that moment the wrapped function runs, once, with the
  arguments of the last call, and nothing stays pending. The arguments of the earlier calls
  are overwritten and never run.
\<close>

theorem debounce_coalesces_burst:
  assumes "\<not> immediate opts" and "maxWait opts = None" and "0 \<le> delay opts"
    and "calls \<noteq> []" and "burst (delay opts) calls"
    and "timeout s0 = None" and "maxTimeout s0 = None"
  shows "executions (run_calls opts fn calls s0) = executions s0
    \<and> (\<forall>h. h < fst (last calls) + delay opts \<longrightarrow>
          executions (advance opts fn h (run_calls opts fn calls s0)) = executions s0)
    \<and> (\<forall>h. fst (last calls) + delay opts \<le> h \<longrightarrow>
          executions (advance opts fn h (run_calls opts fn calls s0))
            = executions s0 @ [(fst (last calls) + delay opts, snd (last calls))]
        \<and> world (advance opts fn h (run_calls opts fn calls s0))
            = fn (snd (last calls)) (world s0)
        \<and> timeout (advance opts fn h (run_calls opts fn calls s0)) = None
        \<and> maxTimeout (advance opts fn h (run_calls opts fn calls s0)) = None
        \<and> pendingArgs (advance opts fn h (run_calls opts fn calls s0)) = None)"
proof -
  let ?s = "run_calls opts fn calls s0"
  let ?due = "fst (last calls) + delay opts"
  have md: "max 0 (delay opts) = delay opts" using assms(3) by simp
  from run_burst[OF assms(1,2,4,5) assms(7), of fn] assms(6)
  obtain i where s: "timeout ?s = Some (i, ?due)" "maxTimeout ?s = None"
      "pendingArgs ?s = Some (snd (last calls))" "executions ?s = executions s0"
      "world ?s = world s0"
    unfolding md by blast
  have early: "advance opts fn h ?s = ?s" if "h < ?due" for h
    using s that by (intro advance_not_due) auto
  have late: "advance opts fn h ?s = (invoke fn ?due ?s)\<lparr>timeout := None\<rparr>" if "?due \<le> h" for h
    using s that assms(1) by (intro advance_trailing_due) auto
  show ?thesis
    using s early by (simp add: late invoke_Some)
qed

theorem debounce_coalesces_burst_witness:
  "executions (advance \<lparr>immediate = False, delay = 100, maxWait = None\<rparr> no_effect 1500
      (run_calls \<lparr>immediate = False, delay = 100, maxWait = None\<rparr> no_effect
         [(1000, ''a''), (1030, ''b''), (1060, ''c''), (1090, ''d''), (1120, ''e'')]
         (initial_state ())))
   = [(1220, ''e'')]"
proof -
  let ?opts = "\<lparr>immediate = False, delay = 100, maxWait = None\<rparr>"
  let ?calls = "[(1000::int, ''a''), (1030, ''b''), (1060, ''c''), (1090, ''d''), (1120, ''e'')]"
  let ?s0 = "initial_state () :: (string, unit) debounce_state"
  have h1: "\<not> immediate ?opts" by simp
  have h2: "maxWait ?opts = None" by simp
  have h3: "0 \<le> delay ?opts" by simp
  have h4: "?calls \<noteq> []" by simp
  have h5: "burst (delay ?opts) ?calls" by simp
  have h6: "timeout ?s0 = None" by (simp add: initial_state_def)
  have h7: "maxTimeout ?s0 = None" by (simp add: initial_state_def)
  have h8: "fst (last ?calls) + delay ?opts \<le> 1500" by simp
  from debounce_coalesces_burst[OF h1 h2 h3 h4 h5 h6 h7, of no_effect,
      THEN conjunct2, THEN conjunct2, rule_format, OF h8, THEN conjunct1]
  show ?thesis by (simp add: initial_state_def)
qed

subsection \<open>Trailing mode with a maximum wait\<close>

lemma consistent_initial: "consistent (initial_state w)"
  by (simp add: consistent_def initial_state_def)

lemma consistent_debounced:
  "\<not> immediate opts \<Longrightarrow> consistent (debounced opts fn now a s)"
  by (simp add: consistent_def debounced_fields)

lemma consistent_onTimeout:
  "\<not> immediate opts \<Longrightarrow> consistent s \<Longrightarrow> timeout s \<noteq> None \<Longrightarrow>
     consistent (onTimeout opts fn now s)"
  by (auto simp: consistent_def onTimeout_eq invoke_def split: option.splits)

lemma consistent_onMaxTimeout:
  "consistent s \<Longrightarrow> timeout s \<noteq> None \<Longrightarrow> consistent (onMaxTimeout fn now s)"
  by (auto simp: consistent_def onMaxTimeout_eq invoke_def split: option.splits)

lemma next_timer_Some:
  "consistent s \<Longrightarrow> next_timer s = Some x \<Longrightarrow> timeout s \<noteq> None"
  by (auto simp: consistent_def next_timer_def split: option.splits)

lemma consistent_advance:
  "\<not> immediate opts \<Longrightarrow> consistent s \<Longrightarrow> consistent (advance opts fn t s)"
proof (cases "next_timer s")
  case None
  assume "consistent s"
  with None show ?thesis by (simp add: advance_def)
next
  case (Some x)
  assume a: "\<not> immediate opts" "consistent s"
  then have "timeout s \<noteq> None" using Some by (rule_tac next_timer_Some)
  with a Some show ?thesis
    by (cases x) (simp add: advance_def consistent_onTimeout consistent_onMaxTimeout
        split: timer_kind.splits)
qed

lemma consistent_run_calls:
  "\<not> immediate opts \<Longrightarrow> consistent s \<Longrightarrow> consistent (run_calls opts fn calls s)"
  by (induction calls arbitrary: s) (auto simp: consistent_debounced consistent_advance)

lemma quiet_first_call:
  assumes "\<not> immediate opts" "maxWait opts = Some mw" "0 \<le> mw" "consistent s" "timeout s = None"
  shows "maxTimeout (debounced opts fn now a s) = Some (Suc (nextTimerId s), now + mw)"
  using assms by (simp add: consistent_def debounced_fields maxTimeout_debounced)

lemma debounced_keeps_maxTimeout:
  "maxTimeout s = Some m \<Longrightarrow> maxTimeout (debounced opts fn now a s) = Some m"
  by (simp add: maxTimeout_debounced)

lemma onMaxTimeout_executes:
  "pendingArgs s = Some b \<Longrightarrow>
     timeout (onMaxTimeout fn now s) = None \<and> maxTimeout (onMaxTimeout fn now s) = None
     \<and> executions (onMaxTimeout fn now s) = executions s @ [(now, b)]
     \<and> world (onMaxTimeout fn now s) = fn b (world s)
     \<and> pendingArgs (onMaxTimeout fn now s) = None"
  by (simp add: onMaxTimeout_eq invoke_def)

lemma max_wait_scenario:
  "0 < t0 \<Longrightarrow>
   executions (advance \<lparr>immediate = False, delay = 500, maxWait = Some 1000\<rparr> fn (t0 + 1000)
      (run_calls \<lparr>immediate = False, delay = 500, maxWait = Some 1000\<rparr> fn
         [(t0, a0), (t0 + 300, a1), (t0 + 600, a2), (t0 + 900, a3)] (initial_state w)))
    = [(t0 + 1000, a3)]"
  by (simp add: initial_state_def advance_def next_timer_def debounced_def startMaxWaitTimer_def
      setTimeout_def onMaxTimeout_def onTimeout_def invoke_def Let_def)

lemma armed_max_timer_has_pending:
  "consistent s \<Longrightarrow> maxTimeout s = Some m \<Longrightarrow> timeout s \<noteq> None \<and> (\<exists>b. pendingArgs s = Some b)"
  by (cases "timeout s") (auto simp: consistent_def)

text \<open>
  With \<open>immediate = false\<close> and \<open>maxWait\<close> set (greater than zero) the max-wait timer
  does what its documentation says, in any state the calls and timers can lead to: a call
  that finds no trailing timer pending (the first call of a burst) arms the max-wait timer
  to fire exactly \<open>maxWait\<close> milliseconds after that call; a call that finds the max-wait
  timer armed leaves it as it is; when the max-wait timer fires there are pending arguments,
  the trailing timer is cancelled and the wrapped function runs at once with those
  arguments. With \<open>delay = 500\<close>, \<open>maxWait = 1000\<close> and a call every 300 milliseconds, the
  wrapped function has run 1000 milliseconds after the first call, with the arguments of
  the call at 900 milliseconds.
\<close>

lemma max_wait_timer_trailing_mode:
  assumes "\<not> immediate opts" and "maxWait opts = Some mw" and "0 < mw"
    and "s = advance opts fn now (run_calls opts fn history (initial_state w))"
  shows
   "(timeout s = None \<longrightarrow>
       maxTimeout (debounced opts fn now args s) = Some (Suc (nextTimerId s), now + mw))
    \<and> (\<forall>m. maxTimeout s = Some m \<longrightarrow> maxTimeout (debounced opts fn now args s) = Some m)
    \<and> (\<forall>i due. maxTimeout s = Some (i, due) \<longrightarrow>
          (\<exists>pending. pendingArgs s = Some pending \<and> timeout s \<noteq> None
             \<and> timeout (onMaxTimeout fn due s) = None
             \<and> maxTimeout (onMaxTimeout fn due s) = None
             \<and> executions (onMaxTimeout fn due s) = executions s @ [(due, pending)]
             \<and> world (onMaxTimeout fn due s) = fn pending (world s)))
    \<and> (\<forall>t0 a0 a1 a2 a3. 0 < t0 \<longrightarrow>
          executions
            (advance \<lparr>immediate = False, delay = 500, maxWait = Some 1000\<rparr> fn (t0 + 1000)
               (run_calls \<lparr>immediate = False, delay = 500, maxWait = Some 1000\<rparr> fn
                  [(t0, a0), (t0 + 300, a1), (t0 + 600, a2), (t0 + 900, a3)]
                  (initial_state w)))
          = [(t0 + 1000, a3)])"
proof -
  have c: "consistent s"
    unfolding assms(4)
    by (intro consistent_advance consistent_run_calls consistent_initial assms(1))
  have first: "timeout s = None \<longrightarrow>
       maxTimeout (debounced opts fn now args s) = Some (Suc (nextTimerId s), now + mw)"
    using quiet_first_call[OF assms(1,2) _ c] assms(3) by simp
  have keep: "\<forall>m. maxTimeout s = Some m \<longrightarrow> maxTimeout (debounced opts fn now args s) = Some m"
    by (simp add: debounced_keeps_maxTimeout)
  have fire: "\<forall>i due. maxTimeout s = Some (i, due) \<longrightarrow>
          (\<exists>pending. pendingArgs s = Some pending \<and> timeout s \<noteq> None
             \<and> timeout (onMaxTimeout fn due s) = None
             \<and> maxTimeout (onMaxTimeout fn due s) = None
             \<and> executions (onMaxTimeout fn due s) = executions s @ [(due, pending)]
             \<and> world (onMaxTimeout fn due s) = fn pending (world s))"
  proof (intro allI impI)
    fix i due
    assume m: "maxTimeout s = Some (i, due)"
    from armed_max_timer_has_pending[OF c m]
    obtain b where b: "pendingArgs s = Some b" and t: "timeout s \<noteq> None" by blast
    from onMaxTimeout_executes[OF b, of fn due] b t
    show "\<exists>pending. pendingArgs s = Some pending \<and> timeout s \<noteq> None
             \<and> timeout (onMaxTimeout fn due s) = None
             \<and> maxTimeout (onMaxTimeout fn due s) = None
             \<and> executions (onMaxTimeout fn due s) = executions s @ [(due, pending)]
             \<and> world (onMaxTimeout fn due s) = fn pending (world s)"
      by blast
  qed
  from first keep fire show ?thesis
    by (intro conjI allI impI) (blast, blast, blast, rule max_wait_scenario)
qed

lemma max_wait_timer_trailing_mode_example:
  "maxTimeout
     (debounced \<lparr>immediate = False, delay = 500, maxWait = Some 1000\<rparr> no_effect 1000 ()
        (advance \<lparr>immediate = False, delay = 500, maxWait = Some 1000\<rparr> no_effect 1000
           (run_calls \<lparr>immediate = False, delay = 500, maxWait = Some 1000\<rparr> no_effect []
              (initial_state ()))))
   = Some (2, 2000)"
proof -
  let ?opts = "\<lparr>immediate = False, delay = 500, maxWait = Some 1000\<rparr>"
  let ?s = "advance ?opts no_effect 1000 (run_calls ?opts no_effect [] (initial_state ()))
              :: (unit, unit) debounce_state"
  have h1: "\<not> immediate ?opts" by simp
  have h2: "maxWait ?opts = Some 1000" by simp
  have h3: "(0::int) < 1000" by simp
  have h4: "?s = advance ?opts no_effect 1000 (run_calls ?opts no_effect [] (initial_state ()))"
    by (rule refl)
  have quiet: "timeout ?s = None"
    by (simp add: initial_state_def advance_def next_timer_def)
  have id: "nextTimerId (advance ?opts no_effect 1000 (initial_state ())
              :: (unit, unit) debounce_state) = 1"
    by (simp add: initial_state_def advance_def next_timer_def)
  from max_wait_timer_trailing_mode[OF h1 h2 h3 h4, of "()", THEN conjunct1, THEN mp, OF quiet]
  show ?thesis by (simp add: id)
qed

text \<open>
  Claim C2 at a failing input. A manager constructed with
  \<open>{immediate: true, delay: 500, maxWait: 1000}\<close>, first call at 1000000: the call runs the
  wrapped function on the leading edge, and \<open>invoke\<close> clears \<open>firstCallTime\<close> before
  \<open>startMaxWaitTimer\<close> subtracts it from the time, so the delay of the max-wait timer is
  \<open>1000 - 1000000\<close>: the timer is due at the call itself, not 1000 milliseconds after it.
  It fires at once, cancels the trailing timer and runs nothing. The same call with
  \<open>immediate: false\<close> arms the timer for 1001000.
\<close>

theorem max_wait_timer_after_leading_call:
  "maxTimeout
     (debounced
        (manager_options
           (Some \<lparr>opt_immediate = Some True, opt_delay = Some 500, opt_maxWait = Some 1000\<rparr>))
        no_effect 1000000 () (initial_state ()))
   = Some (2, 1000000)
   \<and> timeout
     (debounced
        (manager_options
           (Some \<lparr>opt_immediate = Some True, opt_delay = Some 500, opt_maxWait = Some 1000\<rparr>))
        no_effect 1000000 () (initial_state ()))
   = Some (1, 1000500)
   \<and> executions
     (advance
        (manager_options
           (Some \<lparr>opt_immediate = Some True, opt_delay = Some 500, opt_maxWait = Some 1000\<rparr>))
        no_effect 1000000
        (debounced
           (manager_options
              (Some \<lparr>opt_immediate = Some True, opt_delay = Some 500, opt_maxWait = Some 1000\<rparr>))
           no_effect 1000000 () (initial_state ())))
   = [(1000000, ())]
   \<and> timeout
     (advance
        (manager_options
           (Some \<lparr>opt_immediate = Some True, opt_delay = Some 500, opt_maxWait = Some 1000\<rparr>))
        no_effect 1000000
        (debounced
           (manager_options
              (Some \<lparr>opt_immediate = Some True, opt_delay = Some 500, opt_maxWait = Some 1000\<rparr>))
           no_effect 1000000 () (initial_state ())))
   = None
   \<and> maxTimeout
     (debounced
        (manager_options
           (Some \<lparr>opt_immediate = Some False, opt_delay = Some 500, opt_maxWait = Some 1000\<rparr>))
        no_effect 1000000 () (initial_state ()))
   = Some (2, 1001000)"
  by (simp add: manager_options_def debounce_defaults_def constructor_options_def
      initial_state_def advance_def next_timer_def debounced_def startMaxWaitTimer_def
      setTimeout_def onMaxTimeout_def onTimeout_def invoke_def Let_def)

lemma executions_invoke:
  "executions (invoke fn now s) =
     (case pendingArgs s of None \<Rightarrow> executions s | Some a \<Rightarrow> executions s @ [(now, a)])"
  by (simp add: invoke_def split: option.splits)

lemma invoke_resets:
  "executions (invoke fn now s) \<noteq> executions s \<Longrightarrow>
     pendingArgs (invoke fn now s) = None \<and> firstCallTime (invoke fn now s) = 0
     \<and> lastInvokeTime (invoke fn now s) = now"
  by (cases "pendingArgs s") (simp_all add: invoke_def)

text \<open>
  Claim C8, as the code has it. A trailing or max-wait timer callback that ran the wrapped
  function leaves the state fully reset: \<open>pendingArgs\<close> and \<open>firstCallTime\<close> cleared,
  \<open>lastInvokeTime\<close> the time of the execution, neither timer armed. A call that ran the
  wrapped function on the leading edge resets the three variables in the same way, and
  then arms the trailing timer (and the max-wait timer, when \<open>maxWait\<close> is defined).
\<close>

theorem reset_after_execution:
  "(executions (onTimeout opts fn now s) \<noteq> executions s \<longrightarrow>
      pendingArgs (onTimeout opts fn now s) = None
      \<and> firstCallTime (onTimeout opts fn now s) = 0
      \<and> lastInvokeTime (onTimeout opts fn now s) = now
      \<and> timeout (onTimeout opts fn now s) = None
      \<and> maxTimeout (onTimeout opts fn now s) = None)
   \<and> (executions (onMaxTimeout fn now s) \<noteq> executions s \<longrightarrow>
      pendingArgs (onMaxTimeout fn now s) = None
      \<and> firstCallTime (onMaxTimeout fn now s) = 0
      \<and> lastInvokeTime (onMaxTimeout fn now s) = now
      \<and> timeout (onMaxTimeout fn now s) = None
      \<and> maxTimeout (onMaxTimeout fn now s) = None)
   \<and> (executions (debounced opts fn now args s) \<noteq> executions s \<longrightarrow>
      pendingArgs (debounced opts fn now args s) = None
      \<and> firstCallTime (debounced opts fn now args s) = 0
      \<and> lastInvokeTime (debounced opts fn now args s) = now
      \<and> timeout (debounced opts fn now args s)
          = Some (nextTimerId s, now + max 0 (delay opts))
      \<and> (maxWait opts \<noteq> None \<longrightarrow> maxTimeout (debounced opts fn now args s) \<noteq> None))"
proof (intro conjI impI)
  assume "executions (onTimeout opts fn now s) \<noteq> executions s"
  then have "\<not> immediate opts" "executions (invoke fn now s) \<noteq> executions s"
    by (auto simp: onTimeout_eq split: if_splits)
  with invoke_resets[of fn now s]
  have "pendingArgs (onTimeout opts fn now s) = None
      \<and> firstCallTime (onTimeout opts fn now s) = 0
      \<and> lastInvokeTime (onTimeout opts fn now s) = now
      \<and> timeout (onTimeout opts fn now s) = None
      \<and> maxTimeout (onTimeout opts fn now s) = None"
    by (simp add: onTimeout_eq)
  then show "pendingArgs (onTimeout opts fn now s) = None"
    "firstCallTime (onTimeout opts fn now s) = 0"
    "lastInvokeTime (onTimeout opts fn now s) = now"
    "timeout (onTimeout opts fn now s) = None"
    "maxTimeout (onTimeout opts fn now s) = None"
    by simp_all
next
  assume "executions (onMaxTimeout fn now s) \<noteq> executions s"
  then have "executions (invoke fn now s) \<noteq> executions s"
    by (simp add: onMaxTimeout_eq)
  with invoke_resets[of fn now s]
  have "pendingArgs (onMaxTimeout fn now s) = None
      \<and> firstCallTime (onMaxTimeout fn now s) = 0
      \<and> lastInvokeTime (onMaxTimeout fn now s) = now
      \<and> timeout (onMaxTimeout fn now s) = None
      \<and> maxTimeout (onMaxTimeout fn now s) = None"
    by (simp add: onMaxTimeout_eq)
  then show "pendingArgs (onMaxTimeout fn now s) = None"
    "firstCallTime (onMaxTimeout fn now s) = 0"
    "lastInvokeTime (onMaxTimeout fn now s) = now"
    "timeout (onMaxTimeout fn now s) = None"
    "maxTimeout (onMaxTimeout fn now s) = None"
    by simp_all
next
  assume a: "executions (debounced opts fn now args s) \<noteq> executions s"
  then have lead: "immediate opts \<and> lastInvokeTime s = 0"
    by (simp add: debounced_fields split: if_splits)
  then show "pendingArgs (debounced opts fn now args s) = None"
    "firstCallTime (debounced opts fn now args s) = 0"
    "lastInvokeTime (debounced opts fn now args s) = now"
    "timeout (debounced opts fn now args s) = Some (nextTimerId s, now + max 0 (delay opts))"
    by (simp_all add: debounced_fields)
  assume "maxWait opts \<noteq> None"
  then show "maxTimeout (debounced opts fn now args s) \<noteq> None"
    by (auto simp: maxTimeout_debounced split: option.splits)
qed

theorem reset_after_execution_witness:
  "pendingArgs (onTimeout \<lparr>immediate = False, delay = 100, maxWait = Some 1000\<rparr> no_effect 1100
      (debounced \<lparr>immediate = False, delay = 100, maxWait = Some 1000\<rparr> no_effect 1000 ''x''
         (initial_state ()))) = None
   \<and> firstCallTime (onTimeout \<lparr>immediate = False, delay = 100, maxWait = Some 1000\<rparr> no_effect 1100
      (debounced \<lparr>immediate = False, delay = 100, maxWait = Some 1000\<rparr> no_effect 1000 ''x''
         (initial_state ()))) = 0
   \<and> lastInvokeTime (onTimeout \<lparr>immediate = False, delay = 100, maxWait = Some 1000\<rparr> no_effect 1100
      (debounced \<lparr>immediate = False, delay = 100, maxWait = Some 1000\<rparr> no_effect 1000 ''x''
         (initial_state ()))) = 1100
   \<and> timeout (onTimeout \<lparr>immediate = False, delay = 100, maxWait = Some 1000\<rparr> no_effect 1100
      (debounced \<lparr>immediate = False, delay = 100, maxWait = Some 1000\<rparr> no_effect 1000 ''x''
         (initial_state ()))) = None
   \<and> maxTimeout (onTimeout \<lparr>immediate = False, delay = 100, maxWait = Some 1000\<rparr> no_effect 1100
      (debounced \<lparr>immediate = False, delay = 100, maxWait = Some 1000\<rparr> no_effect 1000 ''x''
         (initial_state ()))) = None"
proof -
  let ?opts = "\<lparr>immediate = False, delay = 100, maxWait = Some 1000\<rparr>"
  let ?s = "debounced ?opts no_effect 1000 ''x'' (initial_state ())"
  have ran: "executions (onTimeout ?opts no_effect 1100 ?s) \<noteq> executions ?s"
    by (simp add: onTimeout_eq executions_invoke debounced_fields initial_state_def)
  from reset_after_execution[of ?opts no_effect 1100 ?s, THEN conjunct1, THEN mp, OF ran]
  show ?thesis .
qed

text \<open>
  After a leading-edge execution a timer is armed: the call that ran the wrapped function
  goes on to arm the trailing timer.
\<close>

theorem leading_execution_leaves_timer_counterexample:
  "executions (debounced \<lparr>immediate = True, delay = 100, maxWait = None\<rparr> no_effect 1000 ''x''
      (initial_state ())) = [(1000, ''x'')]
   \<and> timeout (debounced \<lparr>immediate = True, delay = 100, maxWait = None\<rparr> no_effect 1000 ''x''
      (initial_state ())) = Some (1, 1100)"
  by (simp add: debounced_fields initial_state_def)

text \<open>
  Claim C3 at a failing input. A manager constructed with
  \<open>{immediate: true, delay: 100, maxWait: 1000}\<close>, called with \<open>first\<close> at 1000 and, after a
  quiet period, with \<open>second\<close> at 5000. \<open>lastInvokeTime\<close> is zero only until the first
  execution, so only the first call ever runs on the leading edge: the call at 5000, the
  first of a new burst, does not. Its trailing timer fires at 5100, runs nothing because
  \<open>immediate\<close> is true, and cancels the max-wait timer due at 6000. No timer is left and
  \<open>second\<close> stays pending: it is never run.
\<close>

theorem leading_edge_only_on_first_call_ever:
  "executions
     (run_calls
        (manager_options
           (Some \<lparr>opt_immediate = Some True, opt_delay = Some 100, opt_maxWait = Some 1000\<rparr>))
        no_effect [(1000, ''first''), (5000, ''second'')] (initial_state ()))
   = [(1000, ''first'')]
   \<and> executions
     (advance
        (manager_options
           (Some \<lparr>opt_immediate = Some True, opt_delay = Some 100, opt_maxWait = Some 1000\<rparr>))
        no_effect 6000
        (run_calls
           (manager_options
              (Some \<lparr>opt_immediate = Some True, opt_delay = Some 100, opt_maxWait = Some 1000\<rparr>))
           no_effect [(1000, ''first''), (5000, ''second'')] (initial_state ())))
   = [(1000, ''first'')]
   \<and> pendingArgs
     (advance
        (manager_options
           (Some \<lparr>opt_immediate = Some True, opt_delay = Some 100, opt_maxWait = Some 1000\<rparr>))
        no_effect 6000
        (run_calls
           (manager_options
              (Some \<lparr>opt_immediate = Some True, opt_delay = Some 100, opt_maxWait = Some 1000\<rparr>))
           no_effect [(1000, ''first''), (5000, ''second'')] (initial_state ())))
   = Some ''second''
   \<and> timeout
     (advance
        (manager_options
           (Some \<lparr>opt_immediate = Some True, opt_delay = Some 100, opt_maxWait = Some 1000\<rparr>))
        no_effect 6000
        (run_calls
           (manager_options
              (Some \<lparr>opt_immediate = Some True, opt_delay = Some 100, opt_maxWait = Some 1000\<rparr>))
           no_effect [(1000, ''first''), (5000, ''second'')] (initial_state ())))
   = None
   \<and> maxTimeout
     (advance
        (manager_options
           (Some \<lparr>opt_immediate = Some True, opt_delay = Some 100, opt_maxWait = Some 1000\<rparr>))
        no_effect 6000
        (run_calls
           (manager_options
              (Some \<lparr>opt_immediate = Some True, opt_delay = Some 100, opt_maxWait = Some 1000\<rparr>))
           no_effect [(1000, ''first''), (5000, ''second'')] (initial_state ())))
   = None"
  by (simp add: manager_options_def debounce_defaults_def constructor_options_def
      initial_state_def advance_def next_timer_def debounced_def startMaxWaitTimer_def
      setTimeout_def onMaxTimeout_def onTimeout_def invoke_def Let_def)

lemma executions_onTimeout:
  "executions (onTimeout opts fn now s) =
     (if immediate opts then executions s
      else case pendingArgs s of None \<Rightarrow> executions s | Some a \<Rightarrow> executions s @ [(now, a)])"
  by (simp add: onTimeout_eq executions_invoke)

lemma executions_onMaxTimeout:
  "executions (onMaxTimeout fn now s) =
     (case pendingArgs s of None \<Rightarrow> executions s | Some a \<Rightarrow> executions s @ [(now, a)])"
  by (simp add: onMaxTimeout_eq executions_invoke)

lemma manager_maxWait_default:
  "Option.bind given opt_maxWait = None \<Longrightarrow> maxWait (manager_options given) = Some 0"
  by (simp add: manager_options_def debounce_defaults_def constructor_options_def)

lemma zero_max_wait_arms:
  assumes "maxWait opts = Some 0" "maxTimeout s = None" "firstCallTime s \<le> now" "0 \<le> now"
  shows "maxTimeout (debounced opts fn now args s) = Some (Suc (nextTimerId s), now)"
  using assms by (simp add: maxTimeout_debounced debounced_fields)

lemma zero_max_wait_first_call:
  assumes "maxWait opts = Some 0" "0 \<le> now"
  shows "executions (advance opts fn now (debounced opts fn now args (initial_state w)))
           = [(now, args)]"
proof -
  let ?s = "debounced opts fn now args (initial_state w)"
  have t: "timeout ?s = Some (1, now + max 0 (delay opts))"
    by (simp add: debounced_fields initial_state_def)
  have m: "maxTimeout ?s = Some (2, now)"
    using assms by (simp add: maxTimeout_debounced debounced_fields initial_state_def)
  have p: "pendingArgs ?s = (if immediate opts then None else Some args)"
    "executions ?s = (if immediate opts then [(now, args)] else [])"
    by (simp_all add: debounced_fields initial_state_def)
  show ?thesis
    by (simp add: advance_def next_timer_def t m p executions_onTimeout executions_onMaxTimeout)
qed

lemma zero_max_wait_quiet_call:
  assumes "maxWait opts = Some 0" "\<not> immediate opts" "consistent s" "timeout s = None"
  shows "executions (advance opts fn now (debounced opts fn now args s))
           = executions s @ [(now, args)]"
proof -
  let ?s = "debounced opts fn now args s"
  have q: "maxTimeout s = None" "firstCallTime s = 0"
    using assms(3,4) by (simp_all add: consistent_def)
  have t: "timeout ?s = Some (nextTimerId s, now + max 0 (delay opts))"
    by (simp add: debounced_fields)
  have m: "maxTimeout ?s = Some (Suc (nextTimerId s), now)"
    using assms q by (simp add: maxTimeout_debounced debounced_fields)
  have p: "pendingArgs ?s = Some args" "executions ?s = executions s"
    using assms(2) by (simp_all add: debounced_fields)
  show ?thesis
    using assms(2)
    by (simp add: advance_def next_timer_def t m p executions_onTimeout executions_onMaxTimeout)
qed

lemma undefined_max_wait_waits:
  assumes "maxWait opts = None" "\<not> immediate opts" "0 < delay opts" "maxTimeout s = None"
  shows "maxTimeout (debounced opts fn now args s) = None"
    "executions (advance opts fn now (debounced opts fn now args s)) = executions s"
proof -
  let ?s = "debounced opts fn now args s"
  show m: "maxTimeout ?s = None"
    using assms by (simp add: maxTimeout_debounced)
  have t: "timeout ?s = Some (nextTimerId s, now + max 0 (delay opts))"
    by (simp add: debounced_fields)
  have "advance opts fn now ?s = ?s"
    using m t assms(3) by (intro advance_not_due) auto
  then show "executions (advance opts fn now ?s) = executions s"
    using assms(2) by (simp add: debounced_fields)
qed

text \<open>
  Claim C10. The constructor turns an omitted \<open>maxWait\<close> (or omitted options) into
  \<open>maxWait = 0\<close>, and zero does not switch the max-wait timer off: a call that finds no
  max-wait timer running arms one whose delay \<open>maxWait - (now - firstCallTime)\<close> is at most
  zero, so it is due at once. The first call of a new manager has therefore run by the next
  timer tick, and so has, with \<open>immediate = false\<close>, every call that finds no trailing timer
  pending; neither waits for \<open>delay\<close>. Only an undefined \<open>maxWait\<close> arms no timer: the
  call then waits for the trailing timer.
\<close>

theorem zero_max_wait_not_disabled:
  "(Option.bind given opt_maxWait = None \<longrightarrow> maxWait (manager_options given) = Some 0)
   \<and> (maxWait opts = Some 0 \<and> maxTimeout s = None \<and> firstCallTime s \<le> now \<and> 0 \<le> now \<longrightarrow>
        maxTimeout (debounced opts fn now args s) = Some (Suc (nextTimerId s), now))
   \<and> (maxWait opts = Some 0 \<and> 0 \<le> now \<longrightarrow>
        executions (advance opts fn now (debounced opts fn now args (initial_state w)))
          = [(now, args)])
   \<and> (maxWait opts = Some 0 \<and> \<not> immediate opts \<and> consistent s \<and> timeout s = None \<longrightarrow>
        executions (advance opts fn now (debounced opts fn now args s))
          = executions s @ [(now, args)])
   \<and> (maxWait opts = None \<and> \<not> immediate opts \<and> 0 < delay opts \<and> maxTimeout s = None \<longrightarrow>
        maxTimeout (debounced opts fn now args s) = None
        \<and> executions (advance opts fn now (debounced opts fn now args s)) = executions s)"
  using manager_maxWait_default[of given] zero_max_wait_arms[of opts s now fn args]
    zero_max_wait_first_call[of opts now fn args w]
    zero_max_wait_quiet_call[of opts s fn now args]
    undefined_max_wait_waits[of opts s fn now args]
  by blast

theorem zero_max_wait_not_disabled_witness:
  "executions
     (advance (manager_options None) no_effect 1000
        (debounced (manager_options None) no_effect 1000 () (initial_state ())))
   = [(1000, ())]
   \<and> executions
     (advance (manager_options (Some \<lparr>opt_immediate = None, opt_delay = Some 500, opt_maxWait = None\<rparr>))
        no_effect 1000
        (debounced
           (manager_options (Some \<lparr>opt_immediate = None, opt_delay = Some 500, opt_maxWait = None\<rparr>))
           no_effect 1000 () (initial_state ())))
   = [(1000, ())]"
proof (rule conjI)
  have omitted: "Option.bind None opt_maxWait = None" by simp
  from zero_max_wait_not_disabled[of None, THEN conjunct1, THEN mp, OF omitted]
  have mw: "maxWait (manager_options None) = Some 0" .
  have h: "maxWait (manager_options None) = Some 0 \<and> (0::int) \<le> 1000"
    using mw by simp
  from zero_max_wait_not_disabled[of _ "manager_options None" _ 1000,
      THEN conjunct2, THEN conjunct2, THEN conjunct1, THEN mp, OF h]
  show "executions
     (advance (manager_options None) no_effect 1000
        (debounced (manager_options None) no_effect 1000 () (initial_state ())))
   = [(1000, ())]" .
next
  let ?given = "Some \<lparr>opt_immediate = None, opt_delay = Some 500, opt_maxWait = None\<rparr>"
  have omitted: "Option.bind ?given opt_maxWait = None" by simp
  from zero_max_wait_not_disabled[of ?given, THEN conjunct1, THEN mp, OF omitted]
  have mw: "maxWait (manager_options ?given) = Some 0" .
  have h: "maxWait (manager_options ?given) = Some 0 \<and> (0::int) \<le> 1000"
    using mw by simp
  from zero_max_wait_not_disabled[of _ "manager_options ?given" _ 1000,
      THEN conjunct2, THEN conjunct2, THEN conjunct1, THEN mp, OF h]
  show "executions
     (advance (manager_options ?given) no_effect 1000
        (debounced (manager_options ?given) no_effect 1000 () (initial_state ())))
   = [(1000, ())]" .
qed

section \<open>Properties of the state manager\<close>

text \<open>
  Claim C5, as the code has it. When \<open>loadCallback\<close> throws or rejects, \<open>load()\<close> rejects
  with that same error and the state object is what it was before; the first version of the
  manager writes the error to the console before it re-throws, the second re-throws without
  writing anything.
\<close>

theorem load_failure_rethrown:
  "load_v1 (Some (Inl e)) w = (Inl e, w\<lparr>console := console w @ [LoadFailedLog e]\<rparr>)
   \<and> state (snd (load_v1 (Some (Inl e)) w)) = state w
   \<and> load_v2 (Some (Inl e)) w = (Inl e, w)"
  by (simp add: load_v1_def load_v2_def)

text \<open>
  The second version of \<open>load()\<close> re-throws the error of a failing \<open>loadCallback\<close> and the
  console is still empty afterwards.
\<close>

theorem load_v2_does_not_log_counterexample:
  "fst (load_v2 (Some (Inl (Thrown (JStr ''storage unavailable'')))) empty_world)
     = Inl (Thrown (JStr ''storage unavailable''))
   \<and> console (snd (load_v2 (Some (Inl (Thrown (JStr ''storage unavailable'')))) empty_world))
     = []"
  by (simp add: load_v2_def empty_world_def)

lemma world_invoke:
  "world (invoke fn now s) =
     (case pendingArgs s of None \<Rightarrow> world s | Some a \<Rightarrow> fn a (world s))"
  by (simp add: invoke_def split: option.splits)

lemma world_onTimeout:
  "world (onTimeout opts fn now s) =
     (if immediate opts then world s
      else case pendingArgs s of None \<Rightarrow> world s | Some a \<Rightarrow> fn a (world s))"
  by (simp add: onTimeout_eq world_invoke)

lemma world_onMaxTimeout:
  "world (onMaxTimeout fn now s) =
     (case pendingArgs s of None \<Rightarrow> world s | Some a \<Rightarrow> fn a (world s))"
  by (simp add: onMaxTimeout_eq world_invoke)

text \<open>The first call of a new debounced function has run once the delay has passed.\<close>

lemma first_call_runs:
  assumes "now + max 0 (delay opts) \<le> h"
  shows "world (advance opts fn h (debounced opts fn now args (initial_state w))) = fn args w"
proof -
  let ?s = "debounced opts fn now args (initial_state w)"
  have t: "timeout ?s = Some (1, now + max 0 (delay opts))"
    by (simp add: debounced_fields initial_state_def)
  have p: "pendingArgs ?s = (if immediate opts then None else Some args)"
    "world ?s = (if immediate opts then fn args w else w)"
    by (simp_all add: debounced_fields initial_state_def)
  show ?thesis
  proof (cases "maxTimeout ?s")
    case None
    then show ?thesis
      using assms by (simp add: advance_def next_timer_def t p world_onTimeout)
  next
    case (Some m)
    obtain j e where m: "m = (j, e)" by (cases m)
    show ?thesis
      using assms
      by (auto simp: advance_def next_timer_def t p Some m world_onTimeout world_onMaxTimeout)
  qed
qed

lemma persist_v1_fails:
  assumes "cloneable (JObj (state w))" "cb (state w) = Inl e"
  shows "persist_v1 (Some cb) args w =
     w\<lparr>console := console w @ [SaveFailedLog e], rejections := rejections w @ [e],
       saveCalls := saveCalls w @ [state w]\<rparr>"
  using assms by (simp add: persist_v1_def structuredClone_def)

lemma persist_v2_fails:
  assumes "cloneable (JObj (state w))" "cb (state w) = Inl e"
  shows "persist_v2 (Some cb) args w =
     w\<lparr>rejections := rejections w @ [e], saveCalls := saveCalls w @ [state w]\<rparr>"
  using assms by (simp add: persist_v2_def structuredClone_def)

lemma save_resolves: "fst (save debouncedSave now m) = Inr ()"
  by (simp add: save_def split: option.splits)

text \<open>
  Claim C6, as the code has it. Without a \<open>saveCallback\<close>, \<open>save()\<close> changes nothing. With
  one, the promise of \<open>save()\<close> always resolves. An error \<open>saveCallback\<close> throws when the
  debounced save runs never reaches the caller of \<open>save()\<close>: it rejects the promise of the
  wrapped function, which nobody holds. The first version of the manager writes that error
  to the console before it re-throws; the second writes nothing.
\<close>

theorem save_fire_and_forget:
  "debouncedSave_v1 None given = None
   \<and> save (debouncedSave_v1 None given) now m = (Inr (), m)
   \<and> save (debouncedSave_v2 None given) now m = (Inr (), m)
   \<and> fst (save debouncedSave now m) = Inr ()
   \<and> (cloneable (JObj (state w)) \<and> cb (state w) = Inl e
        \<and> now + max 0 (delay (manager_options given)) \<le> h \<longrightarrow>
      fst (save (debouncedSave_v1 (Some cb) given) now (initial_state w)) = Inr ()
      \<and> world (advance (manager_options given) (persist_v1 (Some cb)) h
                 (snd (save (debouncedSave_v1 (Some cb) given) now (initial_state w))))
          = w\<lparr>console := console w @ [SaveFailedLog e], rejections := rejections w @ [e],
              saveCalls := saveCalls w @ [state w]\<rparr>
      \<and> fst (save (debouncedSave_v2 (Some cb) given) now (initial_state w)) = Inr ()
      \<and> world (advance (manager_options given) (persist_v2 (Some cb)) h
                 (snd (save (debouncedSave_v2 (Some cb) given) now (initial_state w))))
          = w\<lparr>rejections := rejections w @ [e], saveCalls := saveCalls w @ [state w]\<rparr>)"
proof (intro conjI impI)
  show "debouncedSave_v1 None given = None" by (simp add: debouncedSave_v1_def)
  show "save (debouncedSave_v1 None given) now m = (Inr (), m)"
    by (simp add: debouncedSave_v1_def save_def)
  show "save (debouncedSave_v2 None given) now m = (Inr (), m)"
    by (simp add: debouncedSave_v2_def save_def)
  show "fst (save debouncedSave now m) = Inr ()" by (rule save_resolves)
next
  assume a: "cloneable (JObj (state w)) \<and> cb (state w) = Inl e
        \<and> now + max 0 (delay (manager_options given)) \<le> h"
  show "fst (save (debouncedSave_v1 (Some cb) given) now (initial_state w)) = Inr ()"
    by (rule save_resolves)
  show "fst (save (debouncedSave_v2 (Some cb) given) now (initial_state w)) = Inr ()"
    by (rule save_resolves)
  have "world (advance (manager_options given) (persist_v1 (Some cb)) h
                 (debounced (manager_options given) (persist_v1 (Some cb)) now ()
                    (initial_state w)))
          = persist_v1 (Some cb) () w"
    using a by (intro first_call_runs) simp
  then show "world (advance (manager_options given) (persist_v1 (Some cb)) h
                 (snd (save (debouncedSave_v1 (Some cb) given) now (initial_state w))))
          = w\<lparr>console := console w @ [SaveFailedLog e], rejections := rejections w @ [e],
              saveCalls := saveCalls w @ [state w]\<rparr>"
    using a by (simp add: debouncedSave_v1_def save_def persist_v1_fails)
  have "world (advance (manager_options given) (persist_v2 (Some cb)) h
                 (debounced (manager_options given) (persist_v2 (Some cb)) now ()
                    (initial_state w)))
          = persist_v2 (Some cb) () w"
    using a by (intro first_call_runs) simp
  then show "world (advance (manager_options given) (persist_v2 (Some cb)) h
                 (snd (save (debouncedSave_v2 (Some cb) given) now (initial_state w))))
          = w\<lparr>rejections := rejections w @ [e], saveCalls := saveCalls w @ [state w]\<rparr>"
    using a by (simp add: debouncedSave_v2_def save_def persist_v2_fails)
qed

theorem save_fire_and_forget_witness:
  "fst (save (debouncedSave_v1 (Some failing_callback) None) 1000 (initial_state empty_world))
     = Inr ()
   \<and> world (advance (manager_options None) (persist_v1 (Some failing_callback)) 1000
        (snd (save (debouncedSave_v1 (Some failing_callback) None) 1000
                (initial_state empty_world))))
     = empty_world
         \<lparr>console := console empty_world @ [SaveFailedLog (Thrown (JStr ''quota exceeded''))],
          rejections := rejections empty_world @ [Thrown (JStr ''quota exceeded'')],
          saveCalls := saveCalls empty_world @ [state empty_world]\<rparr>"
proof -
  have h: "cloneable (JObj (state empty_world))
      \<and> failing_callback (state empty_world) = Inl (Thrown (JStr ''quota exceeded''))
      \<and> 1000 + max 0 (delay (manager_options None)) \<le> (1000::int)"
    by (simp add: empty_world_def failing_callback_def manager_options_def
        debounce_defaults_def constructor_options_def)
  note r = save_fire_and_forget[where given = None and now = 1000 and w = empty_world
      and cb = failing_callback and h = 1000,
      THEN conjunct2, THEN conjunct2, THEN conjunct2, THEN conjunct2, THEN mp, OF h]
  from r[THEN conjunct1] r[THEN conjunct2, THEN conjunct1]
  show ?thesis by (rule conjI)
qed

text \<open>
  In the second version a failing \<open>saveCallback\<close> leaves the console empty: the error is
  only in the rejected promise.
\<close>

theorem save_v2_does_not_log_counterexample:
  "console (world (advance (manager_options None) (persist_v2 (Some failing_callback)) 1000
      (snd (save (debouncedSave_v2 (Some failing_callback) None) 1000
              (initial_state empty_world))))) = []
   \<and> rejections (world (advance (manager_options None) (persist_v2 (Some failing_callback)) 1000
      (snd (save (debouncedSave_v2 (Some failing_callback) None) 1000
              (initial_state empty_world))))) = [Thrown (JStr ''quota exceeded'')]"
proof -
  have "world (advance (manager_options None) (persist_v2 (Some failing_callback)) 1000
          (debounced (manager_options None) (persist_v2 (Some failing_callback)) 1000 ()
             (initial_state empty_world)))
        = persist_v2 (Some failing_callback) () empty_world"
    by (intro first_call_runs)
       (simp add: manager_options_def debounce_defaults_def constructor_options_def)
  then show ?thesis
    by (simp add: debouncedSave_v2_def save_def persist_v2_def structuredClone_def
        empty_world_def failing_callback_def)
qed

section \<open>Properties of the storage binding\<close>

lemma advance_initial: "advance opts fn t (initial_state w) = initial_state w"
  by (simp add: advance_def next_timer_def initial_state_def)

lemma autoSaveEffect_guard: "\<not> storageLoaded b \<Longrightarrow> autoSaveEffect fn now b = b"
  by (simp add: autoSaveEffect_def)

text \<open>
  Until the load has resolved, a step leaves the guard false and the manager's debounce
  state untouched.
\<close>

lemma binding_step_not_loaded:
  assumes "ev \<noteq> LoadSettled (Inr ())" "\<not> storageLoaded b"
    "stateManager b = initial_state w" "storageSets b = 0"
  shows "\<not> storageLoaded (binding_step fn t ev b)
    \<and> stateManager (binding_step fn t ev b) = initial_state w
    \<and> storageSets (binding_step fn t ev b) = 0"
proof (cases ev)
  case (LoadSettled outcome)
  with assms(1) obtain error where "outcome = Inl error" by (cases outcome) auto
  with LoadSettled assms show ?thesis by simp
next
  case InitialiseStorageAutoSave
  with assms show ?thesis by (simp add: autoSaveEffect_def)
next
  case StateMutated
  with assms show ?thesis by (simp add: autoSaveEffect_def)
qed

lemma binding_run_not_loaded:
  "\<forall>e \<in> set history. snd e \<noteq> LoadSettled (Inr ()) \<Longrightarrow> \<not> storageLoaded b \<Longrightarrow>
   stateManager b = initial_state w \<Longrightarrow> storageSets b = 0 \<Longrightarrow>
   \<not> storageLoaded (binding_run fn history b)
   \<and> stateManager (binding_run fn history b) = initial_state w
   \<and> storageSets (binding_run fn history b) = 0"
proof (induction history arbitrary: b)
  case Nil
  then show ?case by simp
next
  case (Cons e history)
  obtain t ev where e: "e = (t, ev)" by (cases e)
  let ?b0 = "b\<lparr>stateManager := advance binding_options fn t (stateManager b)\<rparr>"
  have ev: "ev \<noteq> LoadSettled (Inr ())" using Cons.prems(1) e by simp
  have b0: "\<not> storageLoaded ?b0" "stateManager ?b0 = initial_state w" "storageSets ?b0 = 0"
    using Cons.prems by (simp_all add: advance_initial)
  from binding_step_not_loaded[OF ev b0, of fn t]
  have step: "\<not> storageLoaded (binding_step fn t ev ?b0)"
    "stateManager (binding_step fn t ev ?b0) = initial_state w"
    "storageSets (binding_step fn t ev ?b0) = 0"
    by simp_all
  have rest: "\<forall>e \<in> set history. snd e \<noteq> LoadSettled (Inr ())"
    using Cons.prems(1) by simp
  from Cons.IH[OF rest step] show ?case by (simp add: e)
qed

text \<open>Once the load has resolved, a mutation does reach the debounced save.\<close>

lemma autosave_after_load:
  "timeout (stateManager (binding_run fn
      [(1000, InitialiseStorageAutoSave), (1100, LoadSettled (Inr ())), (1200, StateMutated)]
      (initial_binding w))) = Some (1, 1700)"
  by (simp add: initial_binding_def initial_state_def autoSaveEffect_def save_def advance_def
      next_timer_def debounced_fields binding_options_def manager_options_def
      debounce_defaults_def constructor_options_def)

text \<open>
  Claim C9. In a history of events in which the initial \<open>load()\<close> has not resolved, whatever
  the mutations of the state and whether or not the auto-save effect is registered, nothing
  is persisted: the debounced save has never been called (no timer armed, nothing run) and
  the clean-up write has not happened. The effect returns at its guard while
  \<open>storageLoaded\<close> is false, and \<open>storageLoaded\<close> is true only in a history in which
  \<open>load()\<close> has resolved.
\<close>

theorem no_save_before_load:
  "((\<forall>e \<in> set history. snd e \<noteq> LoadSettled (Inr ())) \<longrightarrow>
      \<not> storageLoaded (binding_run fn history (initial_binding w))
      \<and> stateManager (binding_run fn history (initial_binding w)) = initial_state w
      \<and> executions (stateManager (binding_run fn history (initial_binding w))) = []
      \<and> timeout (stateManager (binding_run fn history (initial_binding w))) = None
      \<and> maxTimeout (stateManager (binding_run fn history (initial_binding w))) = None
      \<and> storageSets (binding_run fn history (initial_binding w)) = 0)
   \<and> (\<not> storageLoaded b \<longrightarrow> autoSaveEffect fn now b = b)
   \<and> (storageLoaded (binding_run fn history (initial_binding w)) \<longrightarrow>
        (\<exists>t. (t, LoadSettled (Inr ())) \<in> set history))"
proof -
  have init: "\<not> storageLoaded (initial_binding w)"
    "stateManager (initial_binding w) = initial_state w"
    "storageSets (initial_binding w) = 0"
    by (simp_all add: initial_binding_def)
  have before: "\<not> storageLoaded (binding_run fn history (initial_binding w))
      \<and> stateManager (binding_run fn history (initial_binding w)) = initial_state w
      \<and> storageSets (binding_run fn history (initial_binding w)) = 0"
    if "\<forall>e \<in> set history. snd e \<noteq> LoadSettled (Inr ())"
    using binding_run_not_loaded[OF that init] .
  have first: "(\<forall>e \<in> set history. snd e \<noteq> LoadSettled (Inr ())) \<longrightarrow>
      \<not> storageLoaded (binding_run fn history (initial_binding w))
      \<and> stateManager (binding_run fn history (initial_binding w)) = initial_state w
      \<and> executions (stateManager (binding_run fn history (initial_binding w))) = []
      \<and> timeout (stateManager (binding_run fn history (initial_binding w))) = None
      \<and> maxTimeout (stateManager (binding_run fn history (initial_binding w))) = None
      \<and> storageSets (binding_run fn history (initial_binding w)) = 0"
  proof
    assume a: "\<forall>e \<in> set history. snd e \<noteq> LoadSettled (Inr ())"
    from before[OF a] show "\<not> storageLoaded (binding_run fn history (initial_binding w))
      \<and> stateManager (binding_run fn history (initial_binding w)) = initial_state w
      \<and> executions (stateManager (binding_run fn history (initial_binding w))) = []
      \<and> timeout (stateManager (binding_run fn history (initial_binding w))) = None
      \<and> maxTimeout (stateManager (binding_run fn history (initial_binding w))) = None
      \<and> storageSets (binding_run fn history (initial_binding w)) = 0"
      by (simp add: initial_state_def)
  qed
  have guard: "\<not> storageLoaded b \<longrightarrow> autoSaveEffect fn now b = b"
    by (simp add: autoSaveEffect_guard)
  have only: "storageLoaded (binding_run fn history (initial_binding w)) \<longrightarrow>
        (\<exists>t. (t, LoadSettled (Inr ())) \<in> set history)"
  proof
    assume l: "storageLoaded (binding_run fn history (initial_binding w))"
    show "\<exists>t. (t, LoadSettled (Inr ())) \<in> set history"
    proof (rule ccontr)
      assume "\<not> (\<exists>t. (t, LoadSettled (Inr ())) \<in> set history)"
      then have "\<forall>e \<in> set history. snd e \<noteq> LoadSettled (Inr ())" by force
      from before[OF this] l show False by simp
    qed
  qed
  from first guard only show ?thesis by (intro conjI)
qed

theorem no_save_before_load_witness:
  "\<not> storageLoaded (binding_run no_effect
       [(1000, InitialiseStorageAutoSave), (1010, StateMutated),
        (1020, LoadSettled (Inl DataCloneError)), (1030, StateMutated)] (initial_binding ()))
   \<and> stateManager (binding_run no_effect
       [(1000, InitialiseStorageAutoSave), (1010, StateMutated),
        (1020, LoadSettled (Inl DataCloneError)), (1030, StateMutated)] (initial_binding ()))
     = initial_state ()
   \<and> executions (stateManager (binding_run no_effect
       [(1000, InitialiseStorageAutoSave), (1010, StateMutated),
        (1020, LoadSettled (Inl DataCloneError)), (1030, StateMutated)] (initial_binding ())))
     = []
   \<and> timeout (stateManager (binding_run no_effect
       [(1000, InitialiseStorageAutoSave), (1010, StateMutated),
        (1020, LoadSettled (Inl DataCloneError)), (1030, StateMutated)] (initial_binding ())))
     = None
   \<and> maxTimeout (stateManager (binding_run no_effect
       [(1000, InitialiseStorageAutoSave), (1010, StateMutated),
        (1020, LoadSettled (Inl DataCloneError)), (1030, StateMutated)] (initial_binding ())))
     = None
   \<and> storageSets (binding_run no_effect
       [(1000, InitialiseStorageAutoSave), (1010, StateMutated),
        (1020, LoadSettled (Inl DataCloneError)), (1030, StateMutated)] (initial_binding ()))
     = 0"
proof -
  have h: "\<forall>e \<in> set [(1000::int, InitialiseStorageAutoSave), (1010, StateMutated),
        (1020, LoadSettled (Inl DataCloneError)), (1030, StateMutated)].
          snd e \<noteq> LoadSettled (Inr ())"
    by simp
  from no_save_before_load[where fn = no_effect and w = "()", THEN conjunct1, THEN mp, OF h]
  show ?thesis .
qed

end
